theory Spec2Isabelle
  imports Main "HOL-Library.Word"
begin

section \<open>Data model (src/db/schema.ts)\<close>

text \<open>
  A JavaScript string is a sequence of UTF-16 code units. \<open>charCodeAt\<close> reads one
  unit, \<open>String.fromCharCode\<close> builds one from a number taken modulo \<open>2 ^ 16\<close>, and
  \<open>substring\<close> counts units, so a string is a list of 16-bit words. \<open>js\<close> embeds
  an ASCII literal.
\<close>

type_synonym jsstring = "16 word list"

definition js :: "string \<Rightarrow> jsstring" where
  "js s = map (\<lambda>c. of_nat (of_char c)) s"

text \<open>\<open>VisitedPrompt = { promptNumber: number; letters: string[] }\<close>\<close>

record VisitedPrompt =
  promptNumber :: int
  letters :: "jsstring list"

text \<open>\<open>Experience = { text: string; createdAt: string }\<close>\<close>

record Experience =
  expText :: jsstring
  createdAt :: jsstring

text \<open>\<open>Memory = { id; title; experiences: Experience[]; inDiary; strikedOut }\<close>\<close>

record Memory =
  memId :: jsstring
  title :: jsstring
  experiences :: "Experience list"
  inDiary :: bool
  strikedOut :: bool

text \<open>A row of the \<open>prompts\<close> table.\<close>

record Prompt =
  rowId :: int
  rowNumber :: int
  rowLetter :: jsstring
  rowEntry :: jsstring
  rowContent :: jsstring

text \<open>\<open>diceRoll: { d10: number, d6: number }\<close>\<close>

record DiceRoll =
  d10 :: int
  d6 :: int

section \<open>Navigation (src/server/routes.ts, lines 399 to 538)\<close>

text \<open>\<open>visitedPrompts.find(p => p.promptNumber === n)\<close>: the first entry with that number.\<close>

definition findVisited :: "VisitedPrompt list \<Rightarrow> int \<Rightarrow> VisitedPrompt option" where
  "findVisited vps n = find (\<lambda>p. promptNumber p = n) vps"

text \<open>Lines 445 to 450: deduplication that keeps the first occurrence of each number.\<close>

definition uniquePromptNumbers :: "int list \<Rightarrow> int list" where
  "uniquePromptNumbers nums =
     fold (\<lambda>num acc. if num \<in> set acc then acc else acc @ [num]) nums []"

definition sortedPromptNumbers :: "Prompt list \<Rightarrow> int list" where
  "sortedPromptNumbers availablePrompts =
     sort (uniquePromptNumbers (map rowNumber availablePrompts))"

text \<open>\<open>Array.prototype.indexOf\<close>; \<open>None\<close> stands for the result \<open>-1\<close>.\<close>

fun indexOf :: "int list \<Rightarrow> int \<Rightarrow> nat option" where
  "indexOf [] x = None"
| "indexOf (y # ys) x =
     (if y = x then Some 0 else map_option Suc (indexOf ys x))"

text \<open>The test of lines 471 to 474: the candidate is not fully visited.\<close>

definition notFullyVisited :: "VisitedPrompt option \<Rightarrow> bool" where
  "notFullyVisited visitedEntry =
     (case visitedEntry of
        None \<Rightarrow> True
      | Some e \<Rightarrow>
          length (letters e) < 3 \<or> js ''a'' \<notin> set (letters e) \<or>
          js ''b'' \<notin> set (letters e) \<or> js ''c'' \<notin> set (letters e))"

text \<open>Lines 480 to 494: the letter chosen at the candidate.\<close>

definition redirectLetter :: "VisitedPrompt option \<Rightarrow> jsstring" where
  "redirectLetter visitedEntry =
     (case visitedEntry of
        Some e \<Rightarrow>
          (if js ''a'' \<notin> set (letters e) then js ''a''
           else if js ''b'' \<notin> set (letters e) then js ''b''
           else if js ''c'' \<notin> set (letters e) then js ''c''
           else js ''a'')
      | None \<Rightarrow> js ''a'')"

text \<open>
  The loop of lines 463 to 501 over the candidates that follow the current index;
  \<open>None\<close> is \<open>foundNext = false\<close>.
\<close>

fun scanCandidates :: "VisitedPrompt list \<Rightarrow> int list \<Rightarrow> (int \<times> jsstring) option" where
  "scanCandidates vps [] = None"
| "scanCandidates vps (candidatePromptNumber # rest) =
     (let visitedEntry = findVisited vps candidatePromptNumber
      in if notFullyVisited visitedEntry
         then Some (candidatePromptNumber, redirectLetter visitedEntry)
         else scanCandidates vps rest)"

text \<open>
  Lines 432 and 433: \<open>String.fromCharCode(currentLetterValue.charCodeAt(0) + 1)\<close>.
  The current letter is never the empty string (an empty string is falsy and is replaced
  at line 408); \<open>charCodeAt(0)\<close> of an empty string is \<open>NaN\<close>, which \<open>fromCharCode\<close>
  turns into code unit 0.
\<close>

definition letterAfter :: "jsstring \<Rightarrow> jsstring" where
  "letterAfter currentLetterValue =
     (case currentLetterValue of [] \<Rightarrow> [0] | c # _ \<Rightarrow> [c + 1])"

text \<open>Lines 429 to 513: the branch \<open>movement === 0\<close>.\<close>

definition sameDice :: "int \<Rightarrow> jsstring \<Rightarrow> Prompt list \<Rightarrow> VisitedPrompt list \<Rightarrow> int \<times> jsstring" where
  "sameDice currentPromptValue currentLetterValue availablePrompts vps =
     (if currentLetterValue = js ''c'' then
        (let sorted = sortedPromptNumbers availablePrompts
         in case indexOf sorted currentPromptValue of
              Some currentIndex \<Rightarrow>
                (case scanCandidates vps (drop (currentIndex + 1) sorted) of
                   Some found \<Rightarrow> found
                 | None \<Rightarrow> (last sorted + 1, js ''a''))
            | None \<Rightarrow> (currentPromptValue, letterAfter currentLetterValue))
      else (currentPromptValue, letterAfter currentLetterValue))"

text \<open>Lines 517 to 538: the letter at a number reached by a nonzero movement.\<close>

definition movedLetter :: "VisitedPrompt option \<Rightarrow> jsstring" where
  "movedLetter visitedEntryForNextPrompt =
     (case visitedEntryForNextPrompt of
        None \<Rightarrow> js ''a''
      | Some e \<Rightarrow>
          (if js ''a'' \<in> set (letters e) \<and> js ''b'' \<in> set (letters e) \<and> js ''c'' \<in> set (letters e)
           then js ''c''
           else if js ''a'' \<notin> set (letters e) then js ''a''
           else if js ''b'' \<notin> set (letters e) then js ''b''
           else if js ''c'' \<notin> set (letters e) then js ''c''
           else js ''a''))"

text \<open>
  The next position \<open>(nextPrompt, nextLetter)\<close> from the resolved current position,
  the roll, the prompt rows and the character's visited prompts.
\<close>

definition nextPosition ::
  "int \<Rightarrow> jsstring \<Rightarrow> DiceRoll \<Rightarrow> Prompt list \<Rightarrow> VisitedPrompt list \<Rightarrow> int \<times> jsstring" where
  "nextPosition currentPromptValue currentLetterValue diceRoll availablePrompts vps =
     (let movement = d10 diceRoll - d6 diceRoll
      in if movement = 0
         then sameDice currentPromptValue currentLetterValue availablePrompts vps
         else (let nextPrompt = max 1 (currentPromptValue + movement)
               in (nextPrompt, movedLetter (findVisited vps nextPrompt))))"

section \<open>Visit tracking (lines 587 to 604)\<close>

fun findIndex :: "('a \<Rightarrow> bool) \<Rightarrow> 'a list \<Rightarrow> nat option" where
  "findIndex P [] = None"
| "findIndex P (x # xs) = (if P x then Some 0 else map_option Suc (findIndex P xs))"

definition trackVisit :: "VisitedPrompt list \<Rightarrow> int \<Rightarrow> jsstring \<Rightarrow> VisitedPrompt list" where
  "trackVisit visitedPrompts nextPrompt nextLetter =
     (case findIndex (\<lambda>p. promptNumber p = nextPrompt) visitedPrompts of
        Some existingPromptIdx \<Rightarrow>
          (if nextLetter \<notin> set (letters (visitedPrompts ! existingPromptIdx))
           then visitedPrompts
                  [existingPromptIdx :=
                     (visitedPrompts ! existingPromptIdx)
                       \<lparr>letters := letters (visitedPrompts ! existingPromptIdx) @ [nextLetter]\<rparr>]
           else visitedPrompts)
      | None \<Rightarrow> visitedPrompts @ [\<lparr>promptNumber = nextPrompt, letters = [nextLetter]\<rparr>])"

text \<open>
  The navigator as one operation: the next position together with the updated history.
\<close>

definition advance ::
  "int \<Rightarrow> jsstring \<Rightarrow> DiceRoll \<Rightarrow> Prompt list \<Rightarrow> VisitedPrompt list
     \<Rightarrow> (int \<times> jsstring) \<times> VisitedPrompt list" where
  "advance currentPromptValue currentLetterValue diceRoll availablePrompts vps =
     (let (nextPrompt, nextLetter) =
            nextPosition currentPromptValue currentLetterValue diceRoll availablePrompts vps
      in ((nextPrompt, nextLetter), trackVisit vps nextPrompt nextLetter))"

text \<open>
  The history read as the spec's mapping from numbers to letter sets: the letters of the
  first entry with the number, the entry every lookup of the handler reads.
\<close>

definition visited :: "VisitedPrompt list \<Rightarrow> int \<Rightarrow> jsstring \<Rightarrow> bool" where
  "visited vps n l =
     (case findVisited vps n of None \<Rightarrow> False | Some e \<Rightarrow> l \<in> set (letters e))"

section \<open>Memory allocation (lines 626 to 683)\<close>

text \<open>
  The predicate of the \<open>findIndex\<close> at lines 644 to 649. \<open>experiences\<close> is an array
  by its type, so \<open>Array.isArray(memory.experiences)\<close> holds.
\<close>

definition isOpen :: "Memory \<Rightarrow> bool" where
  "isOpen memory =
     (\<not> inDiary memory \<and> \<not> strikedOut memory \<and> length (experiences memory) < 3)"

definition activeMemoriesCount :: "Memory list \<Rightarrow> nat" where
  "activeMemoriesCount memories = length (filter (\<lambda>m. \<not> strikedOut m) memories)"

text \<open>
  The branch taken: an experience pushed onto an existing memory (with that memory's id),
  a new memory pushed (with its id), or neither (\<open>memoryUpdated\<close> stays \<open>false\<close>).
\<close>

datatype Outcome = Appended jsstring | Created jsstring | CapacityExceeded

text \<open>
  \<open>newId\<close> is the value of \<open>Math.random().toString(36).substring(2, 15)\<close>, an input of
  the model.
\<close>

definition recordResponse ::
  "Experience \<Rightarrow> jsstring \<Rightarrow> jsstring \<Rightarrow> Memory list \<Rightarrow> Memory list \<times> Outcome" where
  "recordResponse newExperience newId promptTitle memories =
     (case findIndex isOpen memories of
        Some existingMemoryIndex \<Rightarrow>
          (memories
             [existingMemoryIndex :=
                (memories ! existingMemoryIndex)
                  \<lparr>experiences := experiences (memories ! existingMemoryIndex) @ [newExperience]\<rparr>],
           Appended (memId (memories ! existingMemoryIndex)))
      | None \<Rightarrow>
          (if activeMemoriesCount memories < 5
           then (memories @
                   [\<lparr>memId = newId, title = promptTitle, experiences = [newExperience],
                     inDiary = False, strikedOut = False\<rparr>],
                 Created newId)
           else (memories, CapacityExceeded)))"

definition memoryUpdated :: "Outcome \<Rightarrow> bool" where
  "memoryUpdated outcome = (outcome \<noteq> CapacityExceeded)"

text \<open>The invariants of the memory pool: at most 3 experiences each, at most 5 not struck out.\<close>

definition poolInvariant :: "Memory list \<Rightarrow> bool" where
  "poolInvariant memories =
     (list_all (\<lambda>m. length (experiences m) \<le> 3) memories \<and> activeMemoriesCount memories \<le> 5)"

section \<open>The handler of POST /api/prompt-history (lines 363 to 725)\<close>

text \<open>
  The columns of \<open>characters\<close> the handler reads. \<open>current_prompt\<close> has default 1 and
  every write of the repository stores a number in it (1 at creation, \<open>nextPrompt\<close>
  here), so the model reads a number, although the column is declared nullable.
\<close>

record Character =
  memories :: "Memory list"
  currentPrompt :: int
  currentLetter :: jsstring
  visitedPrompts :: "VisitedPrompt list"

text \<open>The request body; an absent \<open>promptNumber\<close> or \<open>promptLetter\<close> is \<open>None\<close>.\<close>

record RequestBody =
  reqCharacterId :: int
  reqPromptId :: int
  reqPromptNumber :: "int option"
  reqPromptLetter :: "jsstring option"
  reqDiceRoll :: DiceRoll
  reqResponse :: jsstring

text \<open>The row inserted into \<open>prompt_history\<close> (its id and timestamp come from the database and the clock).\<close>

record HistoryEntry =
  entryCharacterId :: int
  entryPromptId :: int
  entryPromptNumber :: int
  entryPromptLetter :: jsstring
  entryDiceRoll :: DiceRoll
  entryResponse :: jsstring

text \<open>\<open>updateData\<close>: \<open>memories\<close> is set only when the memories changed (lines 686 to 696).\<close>

record UpdateData =
  updCurrentPrompt :: int
  updCurrentLetter :: jsstring
  updVisitedPrompts :: "VisitedPrompt list"
  updMemories :: "Memory list option"

text \<open>What a processed roll writes and answers (status 201).\<close>

record Processed =
  historyEntry :: HistoryEntry
  updateData :: UpdateData
  previousPrompt :: int
  previousLetter :: jsstring
  movement :: int
  updatedMemories :: "Memory list option"

datatype HttpError =
    NotAuthenticated
  | CharacterNotFound
  | NoPromptsAvailable
  | FailedToCreatePromptHistory

text \<open>Line 401: \<open>promptNumber || character.currentPrompt\<close>; an absent number and 0 are falsy.\<close>

definition resolveNumber :: "int option \<Rightarrow> int \<Rightarrow> int" where
  "resolveNumber bodyPromptNumber characterCurrentPrompt =
     (case bodyPromptNumber of
        Some n \<Rightarrow> if n \<noteq> 0 then n else characterCurrentPrompt
      | None \<Rightarrow> characterCurrentPrompt)"

text \<open>Line 408: \<open>promptLetter || character.currentLetter || 'a'\<close>.\<close>

definition resolveLetter :: "jsstring option \<Rightarrow> jsstring \<Rightarrow> jsstring" where
  "resolveLetter bodyPromptLetter characterCurrentLetter =
     (case bodyPromptLetter of
        Some l \<Rightarrow> if l \<noteq> [] then l
                  else if characterCurrentLetter \<noteq> [] then characterCurrentLetter else js ''a''
      | None \<Rightarrow> if characterCurrentLetter \<noteq> [] then characterCurrentLetter else js ''a'')"

text \<open>The decimal text of an integer inside a template literal.\<close>

fun showNat :: "nat \<Rightarrow> jsstring" where
  "showNat n =
     (if n < 10 then [of_nat (48 + n)] else showNat (n div 10) @ [of_nat (48 + n mod 10)])"

definition showNumber :: "int \<Rightarrow> jsstring" where
  "showNumber n = (if n < 0 then js ''-'' @ showNat (nat (- n)) else showNat (nat n))"

text \<open>Lines 634 to 636.\<close>

definition promptTitle :: "Prompt option \<Rightarrow> int \<Rightarrow> jsstring \<Rightarrow> jsstring" where
  "promptTitle currentPromptData currentPromptNumber currentPromptLetter =
     (case currentPromptData of
        Some p \<Rightarrow>
          js ''Prompt '' @ showNumber currentPromptNumber @ currentPromptLetter @ js '': '' @
          take 30 (rowContent p) @ js ''...''
      | None \<Rightarrow>
          js ''Response to Prompt '' @ showNumber currentPromptNumber @ currentPromptLetter)"

text \<open>
  The handler. Its inputs are the request (whether \<open>req.user\<close> is set, the body), the
  results of its three reads (the character owned by the user, the prompt with the
  request's \<open>promptId\<close>, all prompts), the clock and the random id. Its two writes (the
  insert of the history row, the update of the character) are taken to succeed: a
  failing database call is caught at line 721 and answered with 500, which is
  \<open>FailedToCreatePromptHistory\<close> and lies outside the model. The lookup of the next
  prompt's text (lines 542 to 585) only fills \<open>promptInfo\<close> of the answer and is left out.
\<close>

definition postPromptHistory ::
  "bool \<Rightarrow> Character option \<Rightarrow> Prompt option \<Rightarrow> Prompt list \<Rightarrow> RequestBody
     \<Rightarrow> jsstring \<Rightarrow> jsstring \<Rightarrow> HttpError + Processed" where
  "postPromptHistory authenticated ownedCharacter currentPromptData availablePrompts body now newId =
     (if \<not> authenticated then Inl NotAuthenticated
      else case ownedCharacter of
        None \<Rightarrow> Inl CharacterNotFound
      | Some character \<Rightarrow>
          if availablePrompts = [] then Inl NoPromptsAvailable
          else
              (let currentPromptValue =
                     resolveNumber (reqPromptNumber body) (currentPrompt character);
                   currentLetterValue =
                     resolveLetter (reqPromptLetter body) (currentLetter character);
                   ((nextPrompt, nextLetter), visitedPrompts') =
                     advance currentPromptValue currentLetterValue (reqDiceRoll body)
                       availablePrompts (visitedPrompts character);
                   newExperience = \<lparr>expText = reqResponse body, createdAt = now\<rparr>;
                   (memories', outcome) =
                     recordResponse newExperience newId
                       (promptTitle currentPromptData currentPromptValue currentLetterValue)
                       (memories character);
                   updatedMemories' = (if memoryUpdated outcome then Some memories' else None)
               in Inr \<lparr>historyEntry =
                         \<lparr>entryCharacterId = reqCharacterId body,
                          entryPromptId = reqPromptId body,
                          entryPromptNumber = currentPromptValue,
                          entryPromptLetter = currentLetterValue,
                          entryDiceRoll = reqDiceRoll body,
                          entryResponse = reqResponse body\<rparr>,
                       updateData =
                         \<lparr>updCurrentPrompt = nextPrompt,
                          updCurrentLetter = nextLetter,
                          updVisitedPrompts = visitedPrompts',
                          updMemories = updatedMemories'\<rparr>,
                       previousPrompt = currentPromptValue,
                       previousLetter = currentLetterValue,
                       movement = d10 (reqDiceRoll body) - d6 (reqDiceRoll body),
                       updatedMemories = updatedMemories'\<rparr>))"

text \<open>What a processed roll records of the navigation: the history row and the position and history written to the character.\<close>

definition navigationResult ::
  "Processed \<Rightarrow> HistoryEntry \<times> int \<times> jsstring \<times> VisitedPrompt list" where
  "navigationResult res =
     (historyEntry res, updCurrentPrompt (updateData res), updCurrentLetter (updateData res),
      updVisitedPrompts (updateData res))"

text \<open>The lowest letter not yet visited at a number, \<open>c\<close> when all three are.\<close>

definition lowestUnvisited :: "VisitedPrompt list \<Rightarrow> int \<Rightarrow> jsstring" where
  "lowestUnvisited vps n =
     (if \<not> visited vps n (js ''a'') then js ''a''
      else if \<not> visited vps n (js ''b'') then js ''b''
      else js ''c'')"

text \<open>A history without duplicates: one entry per number, each letter once per entry.\<close>

definition noDuplicates :: "VisitedPrompt list \<Rightarrow> bool" where
  "noDuplicates vps =
     (distinct (map promptNumber vps) \<and> list_all (\<lambda>p. distinct (letters p)) vps)"

section \<open>Basic facts\<close>

lemma js_a: "js ''a'' = [97]"
  by (simp add: js_def)

lemma js_b: "js ''b'' = [98]"
  by (simp add: js_def)

lemma js_c: "js ''c'' = [99]"
  by (simp add: js_def)

lemmas js_abc = js_a js_b js_c

lemma findIndex_None: "findIndex P xs = None \<longleftrightarrow> (\<forall>x\<in>set xs. \<not> P x)"
  by (induction xs) auto

lemma findIndex_Some:
  "findIndex P xs = Some i \<Longrightarrow> i < length xs \<and> P (xs ! i) \<and> (\<forall>j<i. \<not> P (xs ! j))"
proof (induction xs arbitrary: i)
  case Nil
  then show ?case by simp
next
  case (Cons x xs)
  show ?case
  proof (cases "P x")
    case True
    with Cons.prems show ?thesis by simp
  next
    case False
    with Cons.prems obtain k where k: "findIndex P xs = Some k" "i = Suc k"
      by auto
    from Cons.IH [OF k(1)] False k(2) show ?thesis
      by (auto simp: nth_Cons split: nat.splits)
  qed
qed

section \<open>Visit tracking, entry by entry\<close>

lemma trackVisit_Nil: "trackVisit [] n l = [\<lparr>promptNumber = n, letters = [l]\<rparr>]"
  by (simp add: trackVisit_def)

lemma trackVisit_Cons:
  "trackVisit (p # ps) n l =
     (if promptNumber p = n
      then (if l \<in> set (letters p) then p # ps else p\<lparr>letters := letters p @ [l]\<rparr> # ps)
      else p # trackVisit ps n l)"
  by (auto simp: trackVisit_def split: option.splits)

lemma visited_trackVisit:
  "visited (trackVisit vps n l) m k \<longleftrightarrow> visited vps m k \<or> (m = n \<and> k = l)"
  by (induction vps) (auto simp: trackVisit_Nil trackVisit_Cons visited_def findVisited_def)

lemma trackVisit_same_iff: "trackVisit vps n l = vps \<longleftrightarrow> visited vps n l"
proof (induction vps)
  case Nil
  show ?case by (simp add: trackVisit_Nil visited_def findVisited_def)
next
  case (Cons p ps)
  have neq: "l \<notin> set (letters p) \<Longrightarrow> p\<lparr>letters := letters p @ [l]\<rparr> \<noteq> p"
  proof
    assume "l \<notin> set (letters p)" and eq: "p\<lparr>letters := letters p @ [l]\<rparr> = p"
    from eq have "letters (p\<lparr>letters := letters p @ [l]\<rparr>) = letters p" by simp
    then show False by simp
  qed
  show ?case
  proof (cases "promptNumber p = n")
    case True
    then show ?thesis using neq
      by (auto simp: trackVisit_Cons visited_def findVisited_def)
  next
    case False
    then show ?thesis using Cons.IH
      by (simp add: trackVisit_Cons visited_def findVisited_def)
  qed
qed

lemma numbers_trackVisit:
  "set (map promptNumber (trackVisit vps n l)) = insert n (set (map promptNumber vps))"
  by (induction vps) (auto simp: trackVisit_Nil trackVisit_Cons)

lemma noDuplicates_trackVisit: "noDuplicates vps \<Longrightarrow> noDuplicates (trackVisit vps n l)"
proof (induction vps)
  case Nil
  show ?case by (simp add: trackVisit_Nil noDuplicates_def)
next
  case (Cons p ps)
  then have IH: "noDuplicates (trackVisit ps n l)" by (simp add: noDuplicates_def)
  show ?case
  proof (cases "promptNumber p = n")
    case True
    with Cons.prems show ?thesis by (auto simp: trackVisit_Cons noDuplicates_def)
  next
    case False
    have "promptNumber p \<notin> set (map promptNumber (trackVisit ps n l))"
      using Cons.prems False unfolding numbers_trackVisit by (simp add: noDuplicates_def)
    with Cons.prems IH False show ?thesis
      by (simp add: trackVisit_Cons noDuplicates_def)
  qed
qed

section \<open>The sorted prompt numbers and the scan for a candidate\<close>

lemma set_fold_unique:
  "set (fold (\<lambda>num acc. if num \<in> set acc then acc else acc @ [num]) nums acc0) = set nums \<union> set acc0"
  by (induction nums arbitrary: acc0) auto

lemma distinct_fold_unique:
  "distinct acc0 \<Longrightarrow> distinct (fold (\<lambda>num acc. if num \<in> set acc then acc else acc @ [num]) nums acc0)"
  by (induction nums arbitrary: acc0) auto

lemma set_sortedPromptNumbers: "set (sortedPromptNumbers ps) = rowNumber ` set ps"
  by (simp add: sortedPromptNumbers_def uniquePromptNumbers_def set_fold_unique)

lemma sorted_sortedPromptNumbers: "sorted_wrt (<) (sortedPromptNumbers ps)"
  by (simp add: strict_sorted_iff sortedPromptNumbers_def uniquePromptNumbers_def distinct_fold_unique)

lemma indexOf_None: "indexOf xs x = None \<longleftrightarrow> x \<notin> set xs"
  by (induction xs) auto

lemma indexOf_Some: "indexOf xs x = Some i \<Longrightarrow> i < length xs \<and> xs ! i = x"
  by (induction xs arbitrary: i) (auto split: if_splits)

lemma after_index_greater:
  assumes "sorted_wrt (<) xs" and "i < length xs" and "y \<in> set (drop (Suc i) xs)"
  shows "xs ! i < y \<and> y \<in> set xs"
proof -
  from assms(3) obtain k where k: "k < length xs - Suc i" "y = xs ! (Suc i + k)"
    by (auto simp: in_set_conv_nth)
  from k(1) have "Suc i + k < length xs" by simp
  then have "xs ! i < xs ! (Suc i + k)"
    using sorted_wrt_nth_less [OF assms(1), of i "Suc i + k"] by simp
  with k \<open>Suc i + k < length xs\<close> show ?thesis by simp
qed

lemma last_sorted_Max:
  assumes "sorted_wrt (<) (xs :: int list)" and "xs \<noteq> []"
  shows "last xs = Max (set xs)"
proof -
  have "y \<le> last xs" if "y \<in> set xs" for y
  proof -
    from that obtain j where j: "j < length xs" "y = xs ! j"
      by (auto simp: in_set_conv_nth)
    from assms(1) have "sorted xs" by (simp add: strict_sorted_iff)
    with j have "xs ! j \<le> xs ! (length xs - 1)"
      by (intro sorted_nth_mono) auto
    with j assms(2) show ?thesis by (simp add: last_conv_nth)
  qed
  moreover have "last xs \<in> set xs" using assms(2) by simp
  ultimately show ?thesis by (simp add: Max_eqI [symmetric])
qed

lemma fully_visited_iff:
  "\<not> notFullyVisited (findVisited vps n) \<longleftrightarrow>
     visited vps n (js ''a'') \<and> visited vps n (js ''b'') \<and> visited vps n (js ''c'')"
proof (cases "findVisited vps n")
  case None
  then show ?thesis by (simp add: notFullyVisited_def visited_def)
next
  case (Some e)
  have "3 \<le> length (letters e)"
    if "js ''a'' \<in> set (letters e)" "js ''b'' \<in> set (letters e)" "js ''c'' \<in> set (letters e)"
  proof -
    from that have "{js ''a'', js ''b'', js ''c''} \<subseteq> set (letters e)" by simp
    then have "card {js ''a'', js ''b'', js ''c''} \<le> card (set (letters e))"
      by (intro card_mono) simp_all
    also have "\<dots> \<le> length (letters e)" by (rule card_length)
    finally show ?thesis by (simp add: js_abc)
  qed
  with Some show ?thesis
    by (auto simp: notFullyVisited_def visited_def)
qed

lemma scanCandidates_None:
  "scanCandidates vps cs = None \<longleftrightarrow> (\<forall>c\<in>set cs. \<not> notFullyVisited (findVisited vps c))"
  by (induction cs) (auto simp: Let_def)

lemma scanCandidates_Some:
  "scanCandidates vps cs = Some (n, l) \<Longrightarrow>
     n \<in> set cs \<and> notFullyVisited (findVisited vps n) \<and> l = redirectLetter (findVisited vps n)"
  by (induction cs) (auto simp: Let_def split: if_splits)

lemma greater_after_index:
  assumes "sorted_wrt (<) (xs :: int list)" and "i < length xs" and "y \<in> set xs" and "xs ! i < y"
  shows "y \<in> set (drop (Suc i) xs)"
proof -
  from assms(3) obtain j where j: "j < length xs" "y = xs ! j"
    by (auto simp: in_set_conv_nth)
  from assms(1) have srt: "sorted xs" by (simp add: strict_sorted_iff)
  have "i < j"
  proof (rule ccontr)
    assume "\<not> i < j"
    then have "j \<le> i" by simp
    with assms(2) have "xs ! j \<le> xs ! i" using sorted_nth_mono [OF srt, of j i] by simp
    with assms(4) j(2) show False by simp
  qed
  then obtain k where "j = Suc i + k" by (metis less_iff_Suc_add add_Suc)
  with j show ?thesis by (auto simp: in_set_conv_nth intro!: exI [of _ k])
qed

lemma scanCandidates_first:
  "scanCandidates vps cs = Some (n, l) \<Longrightarrow>
     \<exists>pre post. cs = pre @ n # post \<and> (\<forall>c\<in>set pre. \<not> notFullyVisited (findVisited vps c))"
proof (induction cs)
  case Nil
  then show ?case by simp
next
  case (Cons c cs)
  show ?case
  proof (cases "notFullyVisited (findVisited vps c)")
    case True
    with Cons.prems have "c = n" by (simp add: Let_def)
    then have "c # cs = [] @ n # cs" by simp
    then show ?thesis by (metis empty_iff empty_set)
  next
    case False
    with Cons.prems have "scanCandidates vps cs = Some (n, l)" by (simp add: Let_def)
    from Cons.IH [OF this] obtain pre post
      where pp: "cs = pre @ n # post" "\<forall>c\<in>set pre. \<not> notFullyVisited (findVisited vps c)"
      by blast
    from pp(1) have "c # cs = (c # pre) @ n # post" by simp
    moreover from pp(2) False have "\<forall>d\<in>set (c # pre). \<not> notFullyVisited (findVisited vps d)"
      by simp
    ultimately show ?thesis by blast
  qed
qed

lemma scanCandidates_skipped:
  assumes "scanCandidates vps cs = Some (n, l)" and "sorted_wrt (<) cs"
    and "m \<in> set cs" and "m < n"
  shows "\<not> notFullyVisited (findVisited vps m)"
proof -
  from scanCandidates_first [OF assms(1)] obtain pre post
    where pp: "cs = pre @ n # post" "\<forall>c\<in>set pre. \<not> notFullyVisited (findVisited vps c)"
    by blast
  from assms(2) pp(1) have "\<forall>y\<in>set post. n < y"
    by (simp add: sorted_wrt_append)
  with assms(3,4) pp(1) have "m \<in> set pre" by auto
  with pp(2) show ?thesis by blast
qed

lemma redirectLetter_lowest:
  assumes "notFullyVisited (findVisited vps n)"
  shows "redirectLetter (findVisited vps n) = lowestUnvisited vps n \<and>
         \<not> visited vps n (redirectLetter (findVisited vps n))"
proof (cases "findVisited vps n")
  case None
  then show ?thesis by (simp add: redirectLetter_def lowestUnvisited_def visited_def)
next
  case (Some e)
  from assms have "\<not> (visited vps n (js ''a'') \<and> visited vps n (js ''b'') \<and> visited vps n (js ''c''))"
    using fully_visited_iff [of vps n] by blast
  with Some show ?thesis
    by (auto simp: redirectLetter_def lowestUnvisited_def visited_def)
qed

lemma sameDice_exhausted:
  assumes "cur \<in> rowNumber ` set ps"
    and "\<forall>n\<in>rowNumber ` set ps. cur < n \<longrightarrow>
           visited vps n (js ''a'') \<and> visited vps n (js ''b'') \<and> visited vps n (js ''c'')"
  shows "sameDice cur (js ''c'') ps vps = (Max (rowNumber ` set ps) + 1, js ''a'')"
proof -
  let ?s = "sortedPromptNumbers ps"
  from assms(1) have "cur \<in> set ?s" by (simp add: set_sortedPromptNumbers)
  then obtain i where i: "indexOf ?s cur = Some i"
    using indexOf_None [of ?s cur] by (cases "indexOf ?s cur") auto
  then have il: "i < length ?s" "?s ! i = cur" using indexOf_Some by auto
  have "scanCandidates vps (drop (Suc i) ?s) = None"
    unfolding scanCandidates_None
  proof
    fix c assume "c \<in> set (drop (Suc i) ?s)"
    with after_index_greater [OF sorted_sortedPromptNumbers il(1)] il(2)
    have "cur < c" "c \<in> rowNumber ` set ps" by (auto simp: set_sortedPromptNumbers)
    with assms(2) show "\<not> notFullyVisited (findVisited vps c)"
      unfolding fully_visited_iff by blast
  qed
  moreover have ne: "?s \<noteq> []" using il(1) by auto
  then have "last ?s = Max (rowNumber ` set ps)"
    using last_sorted_Max [OF sorted_sortedPromptNumbers] by (simp add: set_sortedPromptNumbers)
  ultimately show ?thesis
    using i by (simp add: sameDice_def)
qed

lemma Max_catalog:
  assumes "cur \<in> rowNumber ` set ps"
  shows "Max (rowNumber ` set ps) + 1 \<notin> rowNumber ` set ps \<and> cur < Max (rowNumber ` set ps) + 1"
proof -
  have "Max (rowNumber ` set ps) + 1 \<notin> rowNumber ` set ps"
  proof
    assume "Max (rowNumber ` set ps) + 1 \<in> rowNumber ` set ps"
    then have "Max (rowNumber ` set ps) + 1 \<le> Max (rowNumber ` set ps)"
      by (intro Max_ge) simp_all
    then show False by simp
  qed
  moreover have "cur \<le> Max (rowNumber ` set ps)" using assms by simp
  ultimately show ?thesis by simp
qed

lemma sameDice_found:
  assumes "cur \<in> rowNumber ` set ps"
    and "\<exists>n\<in>rowNumber ` set ps. cur < n \<and>
           \<not> (visited vps n (js ''a'') \<and> visited vps n (js ''b'') \<and> visited vps n (js ''c''))"
    and "sameDice cur (js ''c'') ps vps = (n', l')"
  shows "n' \<in> rowNumber ` set ps \<and> cur < n' \<and>
         (\<forall>m\<in>rowNumber ` set ps. cur < m \<and> m < n' \<longrightarrow>
            visited vps m (js ''a'') \<and> visited vps m (js ''b'') \<and> visited vps m (js ''c'')) \<and>
         l' = lowestUnvisited vps n' \<and> \<not> visited vps n' l'"
proof -
  let ?s = "sortedPromptNumbers ps"
  from assms(1) have "cur \<in> set ?s" by (simp add: set_sortedPromptNumbers)
  then obtain i where i: "indexOf ?s cur = Some i"
    using indexOf_None [of ?s cur] by (cases "indexOf ?s cur") auto
  then have il: "i < length ?s" "?s ! i = cur" using indexOf_Some by auto
  note srt = sorted_sortedPromptNumbers [of ps]
  from assms(2) obtain n where n: "n \<in> set ?s" "cur < n" "notFullyVisited (findVisited vps n)"
    using fully_visited_iff by (auto simp: set_sortedPromptNumbers)
  from greater_after_index [OF srt il(1) n(1)] n(2) il(2)
  have "n \<in> set (drop (Suc i) ?s)" by simp
  with n(3) have "scanCandidates vps (drop (Suc i) ?s) \<noteq> None"
    unfolding scanCandidates_None by blast
  with assms(3) i have found: "scanCandidates vps (drop (Suc i) ?s) = Some (n', l')"
    by (auto simp: sameDice_def)
  from scanCandidates_Some [OF found]
  have n': "n' \<in> set (drop (Suc i) ?s)" "notFullyVisited (findVisited vps n')"
    "l' = redirectLetter (findVisited vps n')" by simp_all
  from after_index_greater [OF srt il(1) n'(1)] il(2)
  have one: "n' \<in> rowNumber ` set ps" "cur < n'" by (simp_all add: set_sortedPromptNumbers)
  have two: "visited vps m (js ''a'') \<and> visited vps m (js ''b'') \<and> visited vps m (js ''c'')"
    if "m \<in> rowNumber ` set ps" "cur < m" "m < n'" for m
  proof -
    from that(1) have "m \<in> set ?s" by (simp add: set_sortedPromptNumbers)
    from greater_after_index [OF srt il(1) this] that(2) il(2)
    have "m \<in> set (drop (Suc i) ?s)" by simp
    moreover from srt have "sorted_wrt (<) (drop (Suc i) ?s)" by (rule sorted_wrt_drop)
    ultimately have "\<not> notFullyVisited (findVisited vps m)"
      using scanCandidates_skipped [OF found] that(3) by blast
    then show ?thesis by (simp add: fully_visited_iff)
  qed
  from redirectLetter_lowest [OF n'(2)] n'(3)
  have three: "l' = lowestUnvisited vps n'" "\<not> visited vps n' l'" by blast+
  from one two three show ?thesis by blast
qed

lemma advance_fst: "fst (advance cur l r ps vps) = nextPosition cur l r ps vps"
  by (simp add: advance_def split: prod.splits)

lemma advance_snd:
  "snd (advance cur l r ps vps) =
     trackVisit vps (fst (nextPosition cur l r ps vps)) (snd (nextPosition cur l r ps vps))"
  by (simp add: advance_def split: prod.splits)

lemma lowestUnvisited_abc: "lowestUnvisited vps n \<in> {js ''a'', js ''b'', js ''c''}"
  by (simp add: lowestUnvisited_def)

lemma letterAfter_a: "letterAfter (js ''a'') = js ''b''"
  by (simp add: letterAfter_def js_abc)

lemma letterAfter_b: "letterAfter (js ''b'') = js ''c''"
  by (simp add: letterAfter_def js_abc)

section \<open>Memory allocation, branch by branch\<close>

lemma findIndex_first:
  "i < length xs \<Longrightarrow> P (xs ! i) \<Longrightarrow> \<forall>j<i. \<not> P (xs ! j) \<Longrightarrow> findIndex P xs = Some i"
proof (induction xs arbitrary: i)
  case Nil
  then show ?case by simp
next
  case (Cons x xs)
  show ?case
  proof (cases i)
    case 0
    with Cons.prems show ?thesis by simp
  next
    case (Suc k)
    with Cons.prems have "\<not> P x" by auto
    moreover from Suc Cons.prems have "k < length xs" "P (xs ! k)" by simp_all
    moreover from Suc Cons.prems have "\<forall>j<k. \<not> P (xs ! j)" by auto
    ultimately show ?thesis using Cons.IH [of k] Suc by simp
  qed
qed

lemma activeMemoriesCount_map:
  "activeMemoriesCount ms = length (filter (\<lambda>b. \<not> b) (map strikedOut ms))"
  by (simp add: activeMemoriesCount_def filter_map o_def)

lemma activeMemoriesCount_update:
  assumes "i < length ms" and "strikedOut m = strikedOut (ms ! i)"
  shows "activeMemoriesCount (ms[i := m]) = activeMemoriesCount ms"
proof -
  have "map strikedOut (ms[i := m]) = map strikedOut ms"
    using assms by (simp add: map_update list_update_same_conv)
  then show ?thesis by (simp only: activeMemoriesCount_map)
qed

lemma activeMemoriesCount_append:
  "activeMemoriesCount (ms @ [m]) = activeMemoriesCount ms + (if strikedOut m then 0 else 1)"
  by (simp add: activeMemoriesCount_def)

lemma recordResponse_append:
  assumes "findIndex isOpen ms = Some i"
  shows "recordResponse e newId t ms =
     (ms[i := (ms ! i)\<lparr>experiences := experiences (ms ! i) @ [e]\<rparr>], Appended (memId (ms ! i)))"
  using assms by (simp add: recordResponse_def)

lemma recordResponse_create:
  assumes "findIndex isOpen ms = None" and "activeMemoriesCount ms < 5"
  shows "recordResponse e newId t ms =
     (ms @ [\<lparr>memId = newId, title = t, experiences = [e], inDiary = False, strikedOut = False\<rparr>],
      Created newId)"
  using assms by (simp add: recordResponse_def)

lemma recordResponse_full:
  assumes "findIndex isOpen ms = None" and "\<not> activeMemoriesCount ms < 5"
  shows "recordResponse e newId t ms = (ms, CapacityExceeded)"
  using assms by (simp add: recordResponse_def)

lemma capacity_iff:
  "snd (recordResponse e newId t ms) = CapacityExceeded \<longleftrightarrow>
     5 \<le> activeMemoriesCount ms \<and> (\<forall>m\<in>set ms. \<not> isOpen m)"
proof (cases "findIndex isOpen ms")
  case None
  then have "\<forall>m\<in>set ms. \<not> isOpen m" by (simp add: findIndex_None)
  with None show ?thesis by (simp add: recordResponse_def)
next
  case (Some i)
  from findIndex_Some [OF Some] have "ms ! i \<in> set ms" "isOpen (ms ! i)" by simp_all
  then have "\<exists>m\<in>set ms. isOpen m" by blast
  with Some show ?thesis by (simp add: recordResponse_def)
qed

section \<open>The handler, unfolded\<close>

lemma postPromptHistory_processed:
  assumes "ps \<noteq> []"
  shows "postPromptHistory True (Some c) cpd ps body now newId =
     (let n = resolveNumber (reqPromptNumber body) (currentPrompt c);
          l = resolveLetter (reqPromptLetter body) (currentLetter c);
          nav = advance n l (reqDiceRoll body) ps (visitedPrompts c);
          alloc = recordResponse \<lparr>expText = reqResponse body, createdAt = now\<rparr> newId
                    (promptTitle cpd n l) (memories c);
          um = (if memoryUpdated (snd alloc) then Some (fst alloc) else None)
      in Inr \<lparr>historyEntry =
                 \<lparr>entryCharacterId = reqCharacterId body, entryPromptId = reqPromptId body,
                  entryPromptNumber = n, entryPromptLetter = l,
                  entryDiceRoll = reqDiceRoll body, entryResponse = reqResponse body\<rparr>,
               updateData =
                 \<lparr>updCurrentPrompt = fst (fst nav), updCurrentLetter = snd (fst nav),
                  updVisitedPrompts = snd nav, updMemories = um\<rparr>,
               previousPrompt = n, previousLetter = l,
               movement = d10 (reqDiceRoll body) - d6 (reqDiceRoll body),
               updatedMemories = um\<rparr>)"
  using assms by (simp add: postPromptHistory_def Let_def split: prod.splits)

lemma postPromptHistory_rejected:
  "(\<exists>e. postPromptHistory auth oc cpd ps body now newId = Inl e) \<longleftrightarrow>
     (\<not> auth \<or> oc = None \<or> ps = [])"
  by (auto simp: postPromptHistory_def Let_def split: option.splits prod.splits)

section \<open>The navigator\<close>

text \<open>
  C1. With a nonzero movement \<open>d10 - d6\<close>, the next number is the current number plus
  the movement, floored at 1 after the addition; the next letter is \<open>a\<close> when \<open>a\<close> is
  unvisited at that number, otherwise the lowest unvisited of \<open>a\<close>, \<open>b\<close>, \<open>c\<close>, and
  \<open>c\<close> when all three are visited.
\<close>

theorem advance_nonzero_movement:
  assumes "d10 r - d6 r \<noteq> 0"
  shows "fst (advance cur l r ps vps) =
     (let n = max 1 (cur + (d10 r - d6 r))
      in (n, if \<not> visited vps n (js ''a'') then js ''a''
             else if \<not> visited vps n (js ''b'') then js ''b''
             else js ''c''))"
  using assms
  by (auto simp: advance_def nextPosition_def movedLetter_def visited_def Let_def
           split: option.splits)

theorem advance_nonzero_movement_witness:
  "d10 \<lparr>d10 = 1, d6 = 6\<rparr> - d6 \<lparr>d10 = 1, d6 = 6\<rparr> \<noteq> 0 \<and>
   fst (advance 5 (js ''a'') \<lparr>d10 = 1, d6 = 6\<rparr>
          [\<lparr>rowId = 10, rowNumber = 1, rowLetter = js ''a'', rowEntry = [], rowContent = []\<rparr>]
          [\<lparr>promptNumber = 1, letters = [js ''a'']\<rparr>]) = (1, js ''b'')"
  using advance_nonzero_movement [of "\<lparr>d10 = 1, d6 = 6\<rparr>" 5 "js ''a''"
      "[\<lparr>rowId = 10, rowNumber = 1, rowLetter = js ''a'', rowEntry = [], rowContent = []\<rparr>]"
      "[\<lparr>promptNumber = 1, letters = [js ''a'']\<rparr>]"]
  by (simp add: visited_def findVisited_def js_abc)

text \<open>
  C2, as stated, fails. With equal dice at letter \<open>c\<close>, when every number of the prompt
  table above the current one is fully visited, the handler answers the highest number of
  the table plus one with letter \<open>a\<close>, whether or not the history already holds \<open>a\<close>
  at that number: here \<open>(2, a)\<close> is returned although \<open>a\<close> is visited at 2 and \<open>b\<close> is the
  lowest unvisited letter.
\<close>

theorem advance_redirect_visited_letter:
  "fst (advance 1 (js ''c'') \<lparr>d10 = 4, d6 = 4\<rparr>
          [\<lparr>rowId = 10, rowNumber = 1, rowLetter = js ''a'', rowEntry = [], rowContent = []\<rparr>]
          [\<lparr>promptNumber = 1, letters = [js ''a'', js ''b'', js ''c'']\<rparr>,
           \<lparr>promptNumber = 2, letters = [js ''a'']\<rparr>]) = (2, js ''a'') \<and>
   visited [\<lparr>promptNumber = 1, letters = [js ''a'', js ''b'', js ''c'']\<rparr>,
            \<lparr>promptNumber = 2, letters = [js ''a'']\<rparr>] 2 (js ''a'') \<and>
   \<not> visited [\<lparr>promptNumber = 1, letters = [js ''a'', js ''b'', js ''c'']\<rparr>,
            \<lparr>promptNumber = 2, letters = [js ''a'']\<rparr>] 2 (js ''b'')"
  by (simp add: advance_fst nextPosition_def sameDice_def sortedPromptNumbers_def
        uniquePromptNumbers_def notFullyVisited_def redirectLetter_def findVisited_def
        visited_def js_abc)

text \<open>
  The redirection runs only when the current number is a number of the prompt table
  (line 459). Outside the table the handler keeps the number and answers the letter
  after \<open>c\<close>.
\<close>

lemma sameDice_outside_catalog:
  "advance 2 (js ''c'') \<lparr>d10 = 4, d6 = 4\<rparr>
          [\<lparr>rowId = 10, rowNumber = 1, rowLetter = js ''a'', rowEntry = [], rowContent = []\<rparr>]
          [\<lparr>promptNumber = 1, letters = [js ''a'', js ''b'', js ''c'']\<rparr>,
           \<lparr>promptNumber = 2, letters = [js ''a'', js ''b'', js ''c'']\<rparr>] =
     ((2, js ''d''),
      [\<lparr>promptNumber = 1, letters = [js ''a'', js ''b'', js ''c'']\<rparr>,
       \<lparr>promptNumber = 2, letters = [js ''a'', js ''b'', js ''c'', js ''d'']\<rparr>])"
  by (simp add: advance_def nextPosition_def sameDice_def sortedPromptNumbers_def
        uniquePromptNumbers_def letterAfter_def trackVisit_def js_def)

text \<open>
  C2, amended. With equal dice at letter \<open>c\<close> and the current number among the numbers
  of the prompt table, the returned number is strictly greater than the current one and
  the returned letter is one of \<open>a\<close>, \<open>b\<close>, \<open>c\<close>. When some number of the table above
  the current one is not fully visited, the result is the first such number, with its
  lowest unvisited letter; otherwise it is the highest number of the table plus one, with
  letter \<open>a\<close>.
\<close>

theorem advance_redirect_from_c:
  assumes "d10 r - d6 r = 0" and "cur \<in> rowNumber ` set ps"
    and "fst (advance cur (js ''c'') r ps vps) = (n', l')"
  shows "cur < n' \<and> l' \<in> {js ''a'', js ''b'', js ''c''} \<and>
     (if \<exists>n\<in>rowNumber ` set ps. cur < n \<and>
           \<not> (visited vps n (js ''a'') \<and> visited vps n (js ''b'') \<and> visited vps n (js ''c''))
      then n' \<in> rowNumber ` set ps \<and>
           (\<forall>m\<in>rowNumber ` set ps. cur < m \<and> m < n' \<longrightarrow>
              visited vps m (js ''a'') \<and> visited vps m (js ''b'') \<and> visited vps m (js ''c'')) \<and>
           l' = lowestUnvisited vps n' \<and> \<not> visited vps n' l'
      else (n', l') = (Max (rowNumber ` set ps) + 1, js ''a''))"
proof -
  from assms(1,3) have sd: "sameDice cur (js ''c'') ps vps = (n', l')"
    by (simp add: advance_fst nextPosition_def)
  show ?thesis
  proof (cases "\<exists>n\<in>rowNumber ` set ps. cur < n \<and>
           \<not> (visited vps n (js ''a'') \<and> visited vps n (js ''b'') \<and> visited vps n (js ''c''))")
    case True
    from sameDice_found [OF assms(2) True sd]
    have f: "n' \<in> rowNumber ` set ps" "cur < n'"
      "\<forall>m\<in>rowNumber ` set ps. cur < m \<and> m < n' \<longrightarrow>
          visited vps m (js ''a'') \<and> visited vps m (js ''b'') \<and> visited vps m (js ''c'')"
      "l' = lowestUnvisited vps n'" "\<not> visited vps n' l'"
      by blast+
    from f(4) have "l' \<in> {js ''a'', js ''b'', js ''c''}"
      using lowestUnvisited_abc [of vps n'] by simp
    with f show ?thesis unfolding if_P [OF True] by blast
  next
    case False
    then have "\<forall>n\<in>rowNumber ` set ps. cur < n \<longrightarrow>
           visited vps n (js ''a'') \<and> visited vps n (js ''b'') \<and> visited vps n (js ''c'')"
      by blast
    from sameDice_exhausted [OF assms(2) this] sd Max_catalog [OF assms(2)] False
    show ?thesis by simp
  qed
qed

theorem advance_redirect_from_c_witness:
  "d10 \<lparr>d10 = 4, d6 = 4\<rparr> - d6 \<lparr>d10 = 4, d6 = 4\<rparr> = 0 \<and>
   (1::int) \<in> rowNumber ` set [\<lparr>rowId = 10, rowNumber = 1, rowLetter = js ''a'', rowEntry = [], rowContent = []\<rparr>,
                          \<lparr>rowId = 11, rowNumber = 2, rowLetter = js ''a'', rowEntry = [], rowContent = []\<rparr>] \<and>
   fst (advance 1 (js ''c'') \<lparr>d10 = 4, d6 = 4\<rparr>
          [\<lparr>rowId = 10, rowNumber = 1, rowLetter = js ''a'', rowEntry = [], rowContent = []\<rparr>,
           \<lparr>rowId = 11, rowNumber = 2, rowLetter = js ''a'', rowEntry = [], rowContent = []\<rparr>]
          [\<lparr>promptNumber = 1, letters = [js ''a'', js ''b'', js ''c'']\<rparr>,
           \<lparr>promptNumber = 2, letters = [js ''a'']\<rparr>]) = (2, js ''b'') \<and>
   \<not> visited [\<lparr>promptNumber = 1, letters = [js ''a'', js ''b'', js ''c'']\<rparr>,
              \<lparr>promptNumber = 2, letters = [js ''a'']\<rparr>] 2 (js ''b'')"
proof -
  let ?r = "\<lparr>d10 = 4, d6 = 4\<rparr>"
  let ?ps = "[\<lparr>rowId = 10, rowNumber = 1, rowLetter = js ''a'', rowEntry = [], rowContent = []\<rparr>,
              \<lparr>rowId = 11, rowNumber = 2, rowLetter = js ''a'', rowEntry = [], rowContent = []\<rparr>]"
  let ?vps = "[\<lparr>promptNumber = 1, letters = [js ''a'', js ''b'', js ''c'']\<rparr>,
               \<lparr>promptNumber = 2, letters = [js ''a'']\<rparr>]"
  have h1: "d10 ?r - d6 ?r = 0" by simp
  have h2: "(1::int) \<in> rowNumber ` set ?ps" by simp
  have h3: "fst (advance 1 (js ''c'') ?r ?ps ?vps) = (2, js ''b'')"
    by (simp add: advance_fst nextPosition_def sameDice_def sortedPromptNumbers_def
        uniquePromptNumbers_def notFullyVisited_def redirectLetter_def findVisited_def js_abc)
  from advance_redirect_from_c [OF h1 h2 h3] h1 h2 h3 show ?thesis
    by (simp add: js_abc split: if_splits)
qed

text \<open>
  C3, as stated, fails where the next letter is already in the history: at \<open>(5, a)\<close>
  with \<open>a\<close> and \<open>b\<close> visited at 5, equal dice give \<open>(5, b)\<close> and the history gains
  nothing (line 595 adds a letter only when it is not tracked yet).
\<close>

theorem advance_next_letter_already_visited:
  "advance 5 (js ''a'') \<lparr>d10 = 3, d6 = 3\<rparr>
     [\<lparr>rowId = 10, rowNumber = 5, rowLetter = js ''a'', rowEntry = [], rowContent = []\<rparr>]
     [\<lparr>promptNumber = 5, letters = [js ''a'', js ''b'']\<rparr>] =
     ((5, js ''b''), [\<lparr>promptNumber = 5, letters = [js ''a'', js ''b'']\<rparr>])"
  by (simp add: advance_def nextPosition_def sameDice_def letterAfter_def trackVisit_def js_def)

text \<open>
  C3, amended. With equal dice at letter \<open>a\<close> or \<open>b\<close> the returned position is the
  current number with the next letter (\<open>a\<close> to \<open>b\<close>, \<open>b\<close> to \<open>c\<close>), and the updated
  history is the input history together with that one entry: it holds nothing else new,
  and it is the input history itself exactly when the entry was already visited.
\<close>

theorem advance_next_letter:
  assumes "d10 r - d6 r = 0" and "l = js ''a'' \<or> l = js ''b''"
  shows "fst (advance cur l r ps vps) = (cur, if l = js ''a'' then js ''b'' else js ''c'') \<and>
     (\<forall>m k. visited (snd (advance cur l r ps vps)) m k \<longleftrightarrow>
        visited vps m k \<or> (m = cur \<and> k = (if l = js ''a'' then js ''b'' else js ''c''))) \<and>
     (snd (advance cur l r ps vps) = vps \<longleftrightarrow>
        visited vps cur (if l = js ''a'' then js ''b'' else js ''c''))"
proof -
  from assms(2) have "l \<noteq> js ''c''" by (auto simp: js_abc)
  with assms have np: "nextPosition cur l r ps vps = (cur, if l = js ''a'' then js ''b'' else js ''c'')"
    by (auto simp: nextPosition_def sameDice_def letterAfter_a letterAfter_b)
  show ?thesis
    unfolding advance_fst advance_snd np fst_conv snd_conv
    by (simp only: visited_trackVisit trackVisit_same_iff simp_thms)
qed

theorem advance_next_letter_witness:
  "d10 \<lparr>d10 = 5, d6 = 5\<rparr> - d6 \<lparr>d10 = 5, d6 = 5\<rparr> = 0 \<and>
   advance 1 (js ''a'') \<lparr>d10 = 5, d6 = 5\<rparr>
     [\<lparr>rowId = 10, rowNumber = 1, rowLetter = js ''a'', rowEntry = [], rowContent = []\<rparr>] [] =
     ((1, js ''b''), [\<lparr>promptNumber = 1, letters = [js ''b'']\<rparr>]) \<and>
   \<not> visited [] 1 (js ''b'')"
proof -
  have h1: "d10 \<lparr>d10 = 5, d6 = 5\<rparr> - d6 \<lparr>d10 = 5, d6 = 5\<rparr> = 0" by simp
  have h2: "js ''a'' = js ''a'' \<or> js ''a'' = js ''b''" by simp
  have h3: "trackVisit [] 1 (js ''b'') = [\<lparr>promptNumber = 1, letters = [js ''b'']\<rparr>]"
    by (simp add: trackVisit_def)
  from advance_next_letter [OF h1 h2, of 1
      "[\<lparr>rowId = 10, rowNumber = 1, rowLetter = js ''a'', rowEntry = [], rowContent = []\<rparr>]" "[]"]
    h1 h3
  show ?thesis
    by (simp add: advance_def visited_def findVisited_def split: prod.splits)
qed

text \<open>
  C4, as stated, fails. The highest number is taken over the prompt table alone (line
  505), not over the history, and the target may be in the history already: with prompts
  1 and 2 in the table and 3 and 7 in the history, the target is \<open>(3, a)\<close>, which the
  history holds.
\<close>

theorem advance_exhausted_target_in_history:
  "fst (advance 2 (js ''c'') \<lparr>d10 = 6, d6 = 6\<rparr>
      [\<lparr>rowId = 10, rowNumber = 1, rowLetter = js ''a'', rowEntry = [], rowContent = []\<rparr>,
       \<lparr>rowId = 11, rowNumber = 2, rowLetter = js ''a'', rowEntry = [], rowContent = []\<rparr>]
      [\<lparr>promptNumber = 2, letters = [js ''a'', js ''b'', js ''c'']\<rparr>,
       \<lparr>promptNumber = 3, letters = [js ''a'']\<rparr>,
       \<lparr>promptNumber = 7, letters = [js ''a'']\<rparr>]) = (3, js ''a'') \<and>
   findVisited
      [\<lparr>promptNumber = 2, letters = [js ''a'', js ''b'', js ''c'']\<rparr>,
       \<lparr>promptNumber = 3, letters = [js ''a'']\<rparr>,
       \<lparr>promptNumber = 7, letters = [js ''a'']\<rparr>] 3 =
     Some \<lparr>promptNumber = 3, letters = [js ''a'']\<rparr>"
  by (simp add: advance_fst nextPosition_def sameDice_def sortedPromptNumbers_def
        uniquePromptNumbers_def findVisited_def js_abc)

text \<open>
  C4, amended. With equal dice at letter \<open>c\<close> and the current number among the numbers
  of the prompt table, when every number of the table above the current one is fully
  visited the result is the highest number of the table plus one with letter \<open>a\<close>; that
  number is above the current one and is not a number of the table.
\<close>

theorem advance_all_exhausted:
  assumes "d10 r - d6 r = 0" and "cur \<in> rowNumber ` set ps"
    and "\<forall>n\<in>rowNumber ` set ps. cur < n \<longrightarrow>
           visited vps n (js ''a'') \<and> visited vps n (js ''b'') \<and> visited vps n (js ''c'')"
  shows "fst (advance cur (js ''c'') r ps vps) = (Max (rowNumber ` set ps) + 1, js ''a'') \<and>
         Max (rowNumber ` set ps) + 1 \<notin> rowNumber ` set ps \<and>
         cur < Max (rowNumber ` set ps) + 1"
  using assms(1) sameDice_exhausted [OF assms(2,3)] Max_catalog [OF assms(2)]
  by (simp add: advance_fst nextPosition_def)

theorem advance_all_exhausted_witness:
  "d10 \<lparr>d10 = 6, d6 = 6\<rparr> - d6 \<lparr>d10 = 6, d6 = 6\<rparr> = 0 \<and>
   (1::int) \<in> rowNumber ` set
      [\<lparr>rowId = 10, rowNumber = 1, rowLetter = js ''a'', rowEntry = [], rowContent = []\<rparr>,
       \<lparr>rowId = 11, rowNumber = 2, rowLetter = js ''a'', rowEntry = [], rowContent = []\<rparr>] \<and>
   visited [\<lparr>promptNumber = 2, letters = [js ''c'', js ''a'', js ''b'']\<rparr>] 2 (js ''a'') \<and>
   visited [\<lparr>promptNumber = 2, letters = [js ''c'', js ''a'', js ''b'']\<rparr>] 2 (js ''b'') \<and>
   visited [\<lparr>promptNumber = 2, letters = [js ''c'', js ''a'', js ''b'']\<rparr>] 2 (js ''c'') \<and>
   fst (advance 1 (js ''c'') \<lparr>d10 = 6, d6 = 6\<rparr>
      [\<lparr>rowId = 10, rowNumber = 1, rowLetter = js ''a'', rowEntry = [], rowContent = []\<rparr>,
       \<lparr>rowId = 11, rowNumber = 2, rowLetter = js ''a'', rowEntry = [], rowContent = []\<rparr>]
      [\<lparr>promptNumber = 2, letters = [js ''c'', js ''a'', js ''b'']\<rparr>]) = (3, js ''a'')"
proof -
  let ?r = "\<lparr>d10 = 6, d6 = 6\<rparr>"
  let ?ps = "[\<lparr>rowId = 10, rowNumber = 1, rowLetter = js ''a'', rowEntry = [], rowContent = []\<rparr>,
              \<lparr>rowId = 11, rowNumber = 2, rowLetter = js ''a'', rowEntry = [], rowContent = []\<rparr>]"
  let ?vps = "[\<lparr>promptNumber = 2, letters = [js ''c'', js ''a'', js ''b'']\<rparr>]"
  have h1: "d10 ?r - d6 ?r = 0" by simp
  have h2: "(1::int) \<in> rowNumber ` set ?ps" by simp
  have v: "visited ?vps 2 (js ''a'')" "visited ?vps 2 (js ''b'')" "visited ?vps 2 (js ''c'')"
    by (simp_all add: visited_def findVisited_def)
  then have h3: "\<forall>n\<in>rowNumber ` set ?ps. 1 < n \<longrightarrow>
      visited ?vps n (js ''a'') \<and> visited ?vps n (js ''b'') \<and> visited ?vps n (js ''c'')"
    by simp
  from advance_all_exhausted [OF h1 h2 h3] h1 h2 v show ?thesis by simp
qed

text \<open>
  C5, as stated, fails: a nonzero movement to a fully visited number answers \<open>c\<close>, which
  is in the history already, and the history stays as it was, so it is not a strict
  superset.
\<close>

theorem advance_history_unchanged:
  "advance 1 (js ''a'') \<lparr>d10 = 2, d6 = 1\<rparr>
     [\<lparr>rowId = 10, rowNumber = 1, rowLetter = js ''a'', rowEntry = [], rowContent = []\<rparr>]
     [\<lparr>promptNumber = 2, letters = [js ''a'', js ''b'', js ''c'']\<rparr>] =
     ((2, js ''c''), [\<lparr>promptNumber = 2, letters = [js ''a'', js ''b'', js ''c'']\<rparr>])"
  by (simp add: advance_def nextPosition_def movedLetter_def findVisited_def trackVisit_def js_abc)

text \<open>
  C5, amended. The updated history holds every entry of the input history and the chosen
  position, and nothing else; it differs from the input history exactly when the chosen
  position was not visited before; and a history without duplicates stays without
  duplicates.
\<close>

theorem advance_history_grows:
  assumes "advance cur l r ps vps = ((n, k), vps')"
  shows "(\<forall>m x. visited vps' m x \<longleftrightarrow> visited vps m x \<or> (m = n \<and> x = k)) \<and>
         (vps' \<noteq> vps \<longleftrightarrow> \<not> visited vps n k) \<and>
         (noDuplicates vps \<longrightarrow> noDuplicates vps')"
proof -
  from assms have "vps' = trackVisit vps n k"
    by (auto simp: advance_def split: prod.splits)
  then show ?thesis
    by (simp add: visited_trackVisit trackVisit_same_iff noDuplicates_trackVisit)
qed

theorem advance_history_grows_witness:
  "advance 5 (js ''a'') \<lparr>d10 = 1, d6 = 6\<rparr>
     [\<lparr>rowId = 10, rowNumber = 1, rowLetter = js ''a'', rowEntry = [], rowContent = []\<rparr>]
     [\<lparr>promptNumber = 1, letters = [js ''a'']\<rparr>] =
     ((1, js ''b''), [\<lparr>promptNumber = 1, letters = [js ''a'', js ''b'']\<rparr>]) \<and>
   noDuplicates [\<lparr>promptNumber = 1, letters = [js ''a'']\<rparr>] \<and>
   noDuplicates [\<lparr>promptNumber = 1, letters = [js ''a'', js ''b'']\<rparr>] \<and>
   \<not> visited [\<lparr>promptNumber = 1, letters = [js ''a'']\<rparr>] 1 (js ''b'') \<and>
   visited [\<lparr>promptNumber = 1, letters = [js ''a'', js ''b'']\<rparr>] 1 (js ''b'')"
proof -
  have h1: "advance 5 (js ''a'') \<lparr>d10 = 1, d6 = 6\<rparr>
     [\<lparr>rowId = 10, rowNumber = 1, rowLetter = js ''a'', rowEntry = [], rowContent = []\<rparr>]
     [\<lparr>promptNumber = 1, letters = [js ''a'']\<rparr>] =
     ((1, js ''b''), [\<lparr>promptNumber = 1, letters = [js ''a'', js ''b'']\<rparr>])"
    by (simp add: advance_def nextPosition_def movedLetter_def findVisited_def trackVisit_def js_abc)
  have h2: "noDuplicates [\<lparr>promptNumber = 1, letters = [js ''a'']\<rparr>]"
    by (simp add: noDuplicates_def)
  have h3: "\<not> visited [\<lparr>promptNumber = 1, letters = [js ''a'']\<rparr>] 1 (js ''b'')"
    by (simp add: visited_def findVisited_def js_abc)
  from advance_history_grows [OF h1] h1 h2 h3 show ?thesis by simp
qed

section \<open>The memory allocator\<close>

text \<open>
  C6. \<open>recordResponse\<close> preserves the invariants of the memory pool: from a pool in
  which no memory holds more than 3 experiences and at most 5 memories are not struck
  out, the resulting pool has both properties again.
\<close>

theorem recordResponse_preserves_invariant:
  assumes "poolInvariant ms"
  shows "poolInvariant (fst (recordResponse e newId t ms))"
proof (cases "findIndex isOpen ms")
  case None
  show ?thesis
  proof (cases "activeMemoriesCount ms < 5")
    case True
    with assms show ?thesis
      unfolding recordResponse_create [OF None True]
      by (simp add: poolInvariant_def activeMemoriesCount_append)
  next
    case False
    with assms show ?thesis
      unfolding recordResponse_full [OF None False] by simp
  qed
next
  case (Some i)
  from findIndex_Some [OF Some] have i: "i < length ms" "isOpen (ms ! i)" by simp_all
  let ?m = "(ms ! i)\<lparr>experiences := experiences (ms ! i) @ [e]\<rparr>"
  from i(2) have "length (experiences ?m) \<le> 3" by (simp add: isOpen_def)
  moreover have "set (ms[i := ?m]) \<subseteq> insert ?m (set ms)" by (rule set_update_subset_insert)
  ultimately have "list_all (\<lambda>m. length (experiences m) \<le> 3) (ms[i := ?m])"
    using assms unfolding poolInvariant_def list_all_iff by blast
  moreover have "activeMemoriesCount (ms[i := ?m]) = activeMemoriesCount ms"
    using i(1) by (simp add: activeMemoriesCount_update)
  ultimately show ?thesis
    using assms unfolding recordResponse_append [OF Some] by (simp add: poolInvariant_def)
qed

theorem recordResponse_preserves_invariant_witness:
  "poolInvariant
     [\<lparr>memId = js ''m1'', title = js ''First'',
       experiences = [\<lparr>expText = js ''one'', createdAt = js ''t1''\<rparr>,
                      \<lparr>expText = js ''two'', createdAt = js ''t2''\<rparr>],
       inDiary = False, strikedOut = False\<rparr>] \<and>
   fst (recordResponse \<lparr>expText = js ''three'', createdAt = js ''t3''\<rparr> (js ''m2'') (js ''Second'')
     [\<lparr>memId = js ''m1'', title = js ''First'',
       experiences = [\<lparr>expText = js ''one'', createdAt = js ''t1''\<rparr>,
                      \<lparr>expText = js ''two'', createdAt = js ''t2''\<rparr>],
       inDiary = False, strikedOut = False\<rparr>]) =
     [\<lparr>memId = js ''m1'', title = js ''First'',
       experiences = [\<lparr>expText = js ''one'', createdAt = js ''t1''\<rparr>,
                      \<lparr>expText = js ''two'', createdAt = js ''t2''\<rparr>,
                      \<lparr>expText = js ''three'', createdAt = js ''t3''\<rparr>],
       inDiary = False, strikedOut = False\<rparr>] \<and>
   poolInvariant
     [\<lparr>memId = js ''m1'', title = js ''First'',
       experiences = [\<lparr>expText = js ''one'', createdAt = js ''t1''\<rparr>,
                      \<lparr>expText = js ''two'', createdAt = js ''t2''\<rparr>,
                      \<lparr>expText = js ''three'', createdAt = js ''t3''\<rparr>],
       inDiary = False, strikedOut = False\<rparr>]"
proof -
  let ?ms = "[\<lparr>memId = js ''m1'', title = js ''First'',
       experiences = [\<lparr>expText = js ''one'', createdAt = js ''t1''\<rparr>,
                      \<lparr>expText = js ''two'', createdAt = js ''t2''\<rparr>],
       inDiary = False, strikedOut = False\<rparr>]"
  have h: "poolInvariant ?ms"
    by (simp add: poolInvariant_def activeMemoriesCount_def)
  have r: "fst (recordResponse \<lparr>expText = js ''three'', createdAt = js ''t3''\<rparr> (js ''m2'')
                 (js ''Second'') ?ms) =
     [\<lparr>memId = js ''m1'', title = js ''First'',
       experiences = [\<lparr>expText = js ''one'', createdAt = js ''t1''\<rparr>,
                      \<lparr>expText = js ''two'', createdAt = js ''t2''\<rparr>,
                      \<lparr>expText = js ''three'', createdAt = js ''t3''\<rparr>],
       inDiary = False, strikedOut = False\<rparr>]"
    by (simp add: recordResponse_def isOpen_def)
  from recordResponse_preserves_invariant [OF h,
      of "\<lparr>expText = js ''three'', createdAt = js ''t3''\<rparr>" "js ''m2''" "js ''Second''"] h r
  show ?thesis by simp
qed

text \<open>
  C7. On a pool within its cap of 5 memories not struck out, \<open>recordResponse\<close> answers
  \<open>CapacityExceeded\<close> exactly when the pool holds 5 memories not struck out and no
  memory is open; then the pool is returned as it was, and every further call on it,
  whatever the text, the id and the title, answers the same and returns the same pool.
\<close>

theorem recordResponse_capacity_exceeded:
  assumes "activeMemoriesCount ms \<le> 5"
  shows "(snd (recordResponse e newId t ms) = CapacityExceeded \<longleftrightarrow>
            activeMemoriesCount ms = 5 \<and> (\<forall>m\<in>set ms. \<not> isOpen m)) \<and>
         (snd (recordResponse e newId t ms) = CapacityExceeded \<longrightarrow>
            (\<forall>e' newId' t'. recordResponse e' newId' t' ms = (ms, CapacityExceeded)))"
proof -
  have "recordResponse e' newId' t' ms = (ms, CapacityExceeded)"
    if "snd (recordResponse e newId t ms) = CapacityExceeded" for e' newId' t'
  proof -
    from that have "5 \<le> activeMemoriesCount ms" "\<forall>m\<in>set ms. \<not> isOpen m"
      by (simp_all add: capacity_iff)
    then show ?thesis by (simp add: recordResponse_full findIndex_None)
  qed
  with assms show ?thesis by (auto simp: capacity_iff)
qed

theorem recordResponse_capacity_exceeded_witness:
  "activeMemoriesCount
     (map (\<lambda>i. \<lparr>memId = i, title = js ''T'',
                experiences = [\<lparr>expText = js ''x'', createdAt = js ''t''\<rparr>,
                               \<lparr>expText = js ''y'', createdAt = js ''t''\<rparr>,
                               \<lparr>expText = js ''z'', createdAt = js ''t''\<rparr>],
                inDiary = False, strikedOut = False\<rparr>)
        [js ''m1'', js ''m2'', js ''m3'', js ''m4'', js ''m5'']) \<le> 5 \<and>
   recordResponse \<lparr>expText = js ''sixteenth'', createdAt = js ''t''\<rparr> (js ''m6'') (js ''U'')
     (map (\<lambda>i. \<lparr>memId = i, title = js ''T'',
                experiences = [\<lparr>expText = js ''x'', createdAt = js ''t''\<rparr>,
                               \<lparr>expText = js ''y'', createdAt = js ''t''\<rparr>,
                               \<lparr>expText = js ''z'', createdAt = js ''t''\<rparr>],
                inDiary = False, strikedOut = False\<rparr>)
        [js ''m1'', js ''m2'', js ''m3'', js ''m4'', js ''m5'']) =
     (map (\<lambda>i. \<lparr>memId = i, title = js ''T'',
                experiences = [\<lparr>expText = js ''x'', createdAt = js ''t''\<rparr>,
                               \<lparr>expText = js ''y'', createdAt = js ''t''\<rparr>,
                               \<lparr>expText = js ''z'', createdAt = js ''t''\<rparr>],
                inDiary = False, strikedOut = False\<rparr>)
        [js ''m1'', js ''m2'', js ''m3'', js ''m4'', js ''m5''],
      CapacityExceeded)"
proof -
  let ?ms = "map (\<lambda>i. \<lparr>memId = i, title = js ''T'',
                experiences = [\<lparr>expText = js ''x'', createdAt = js ''t''\<rparr>,
                               \<lparr>expText = js ''y'', createdAt = js ''t''\<rparr>,
                               \<lparr>expText = js ''z'', createdAt = js ''t''\<rparr>],
                inDiary = False, strikedOut = False\<rparr>)
        [js ''m1'', js ''m2'', js ''m3'', js ''m4'', js ''m5'']"
  have c: "activeMemoriesCount ?ms = 5" by (simp add: activeMemoriesCount_def)
  then have h: "activeMemoriesCount ?ms \<le> 5" by simp
  have o: "\<forall>m\<in>set ?ms. \<not> isOpen m" by (simp add: isOpen_def)
  from recordResponse_capacity_exceeded [OF h, of "\<lparr>expText = js ''x'', createdAt = js ''t''\<rparr>"
      "js ''m6''" "js ''U''"] c o h
  show ?thesis by blast
qed

section \<open>The handler as a whole\<close>

text \<open>
  C9, as stated, fails: the handler has no check of the persisted state. On a character
  whose visit record holds the letter \<open>z\<close> and whose pool holds 6 memories not struck
  out, the call is processed like any other: the position moves, the history keeps \<open>z\<close>
  and gains the new entry, the memories are not written, and the answer is the processed
  roll, not an error.
\<close>

theorem postPromptHistory_accepts_corrupt_state:
  "postPromptHistory True
     (Some \<lparr>memories =
               map (\<lambda>i. \<lparr>memId = i, title = js ''T'',
                          experiences = [\<lparr>expText = js ''x'', createdAt = js ''t''\<rparr>,
                                         \<lparr>expText = js ''y'', createdAt = js ''t''\<rparr>,
                                         \<lparr>expText = js ''z'', createdAt = js ''t''\<rparr>],
                          inDiary = False, strikedOut = False\<rparr>)
                 [js ''m1'', js ''m2'', js ''m3'', js ''m4'', js ''m5'', js ''m6''],
             currentPrompt = 1, currentLetter = js ''a'',
             visitedPrompts = [\<lparr>promptNumber = 1, letters = [js ''z'']\<rparr>]\<rparr>)
     (Some \<lparr>rowId = 10, rowNumber = 1, rowLetter = js ''a'', rowEntry = [],
            rowContent = js ''You wake''\<rparr>)
     [\<lparr>rowId = 10, rowNumber = 1, rowLetter = js ''a'', rowEntry = [],
       rowContent = js ''You wake''\<rparr>,
      \<lparr>rowId = 11, rowNumber = 2, rowLetter = js ''a'', rowEntry = [],
       rowContent = js ''You feed''\<rparr>]
     \<lparr>reqCharacterId = 7, reqPromptId = 10, reqPromptNumber = Some 1,
      reqPromptLetter = Some (js ''a''), reqDiceRoll = \<lparr>d10 = 3, d6 = 2\<rparr>,
      reqResponse = js ''I hid''\<rparr>
     (js ''t'') (js ''m7'') =
   Inr \<lparr>historyEntry =
          \<lparr>entryCharacterId = 7, entryPromptId = 10, entryPromptNumber = 1,
           entryPromptLetter = js ''a'', entryDiceRoll = \<lparr>d10 = 3, d6 = 2\<rparr>,
           entryResponse = js ''I hid''\<rparr>,
        updateData =
          \<lparr>updCurrentPrompt = 2, updCurrentLetter = js ''a'',
           updVisitedPrompts = [\<lparr>promptNumber = 1, letters = [js ''z'']\<rparr>,
                                \<lparr>promptNumber = 2, letters = [js ''a'']\<rparr>],
           updMemories = None\<rparr>,
        previousPrompt = 1, previousLetter = js ''a'', movement = 1,
        updatedMemories = None\<rparr>"
  by (simp add: postPromptHistory_def resolveNumber_def resolveLetter_def advance_def
        nextPosition_def movedLetter_def findVisited_def trackVisit_def recordResponse_def
        isOpen_def activeMemoriesCount_def memoryUpdated_def js_def Let_def)

text \<open>
  C9, amended. The handler rejects a call exactly when the user is not authenticated, the
  character is not found, or the prompt table is empty; the content of the visit record
  and of the memory pool never causes a rejection. When the call is processed, every
  visited letter of the input visit record, also one outside \<open>a\<close>, \<open>b\<close>, \<open>c\<close>, is
  still visited afterwards, and a pool with no open memory and 5 or more memories not
  struck out is not written.
\<close>

theorem postPromptHistory_no_state_check:
  "((\<exists>e. postPromptHistory auth oc cpd ps body now newId = Inl e) \<longleftrightarrow>
      (\<not> auth \<or> oc = None \<or> ps = [])) \<and>
   (\<forall>c res. oc = Some c \<and> postPromptHistory auth oc cpd ps body now newId = Inr res \<longrightarrow>
      (\<forall>m k. visited (visitedPrompts c) m k \<longrightarrow>
         visited (updVisitedPrompts (updateData res)) m k) \<and>
      ((\<forall>m\<in>set (memories c). \<not> isOpen m) \<and> 5 \<le> activeMemoriesCount (memories c) \<longrightarrow>
         updMemories (updateData res) = None))"
proof -
  have "(\<forall>m k. visited (visitedPrompts c) m k \<longrightarrow>
            visited (updVisitedPrompts (updateData res)) m k) \<and>
        ((\<forall>m\<in>set (memories c). \<not> isOpen m) \<and> 5 \<le> activeMemoriesCount (memories c) \<longrightarrow>
            updMemories (updateData res) = None)"
    if r: "postPromptHistory auth (Some c) cpd ps body now newId = Inr res" for c res
  proof -
    from r have a: "auth" "ps \<noteq> []"
      by (auto simp: postPromptHistory_def split: if_splits)
    from r a(1) have res: "res = projr (postPromptHistory True (Some c) cpd ps body now newId)"
      by simp
    have v: "visited (updVisitedPrompts (updateData res)) m k"
      if "visited (visitedPrompts c) m k" for m k
      using that unfolding res postPromptHistory_processed [OF a(2)]
      by (simp add: Let_def advance_snd visited_trackVisit)
    have u: "updMemories (updateData res) = None"
      if "\<forall>m\<in>set (memories c). \<not> isOpen m" "5 \<le> activeMemoriesCount (memories c)"
    proof -
      from that have "recordResponse e i t (memories c) = (memories c, CapacityExceeded)" for e i t
        by (simp add: recordResponse_full findIndex_None)
      then show ?thesis unfolding res postPromptHistory_processed [OF a(2)]
        by (simp add: Let_def memoryUpdated_def)
    qed
    from v u show ?thesis by blast
  qed
  with postPromptHistory_rejected [of auth oc cpd ps body now newId] show ?thesis by blast
qed

theorem postPromptHistory_no_state_check_witness:
  "(let c = \<lparr>memories = [], currentPrompt = 3, currentLetter = js ''b'',
             visitedPrompts = [\<lparr>promptNumber = 3, letters = [js ''q'', js ''b'']\<rparr>]\<rparr>;
        row = \<lparr>rowId = 10, rowNumber = 3, rowLetter = js ''a'', rowEntry = [],
               rowContent = js ''You wake''\<rparr>;
        body = \<lparr>reqCharacterId = 7, reqPromptId = 10, reqPromptNumber = None,
                reqPromptLetter = None, reqDiceRoll = \<lparr>d10 = 2, d6 = 2\<rparr>,
                reqResponse = js ''I slept''\<rparr>;
        res = projr (postPromptHistory True (Some c) (Some row) [row] body (js ''t'') (js ''m1''))
    in postPromptHistory True (Some c) (Some row) [row] body (js ''t'') (js ''m1'') = Inr res \<and>
       visited (visitedPrompts c) 3 (js ''q'') \<and>
       visited (updVisitedPrompts (updateData res)) 3 (js ''q'') \<and>
       updVisitedPrompts (updateData res) =
         [\<lparr>promptNumber = 3, letters = [js ''q'', js ''b'', js ''c'']\<rparr>])"
proof -
  let ?c = "\<lparr>memories = [], currentPrompt = 3, currentLetter = js ''b'',
             visitedPrompts = [\<lparr>promptNumber = 3, letters = [js ''q'', js ''b'']\<rparr>]\<rparr>"
  let ?row = "\<lparr>rowId = 10, rowNumber = 3, rowLetter = js ''a'', rowEntry = [],
               rowContent = js ''You wake''\<rparr>"
  let ?body = "\<lparr>reqCharacterId = 7, reqPromptId = 10, reqPromptNumber = None,
                reqPromptLetter = None, reqDiceRoll = \<lparr>d10 = 2, d6 = 2\<rparr>,
                reqResponse = js ''I slept''\<rparr>"
  let ?out = "postPromptHistory True (Some ?c) (Some ?row) [?row] ?body (js ''t'') (js ''m1'')"
  have ok: "\<not> (\<not> True \<or> Some ?c = None \<or> [?row] = [])"
    by simp
  note t = postPromptHistory_no_state_check
    [of True "Some ?c" "Some ?row" "[?row]" ?body "js ''t''" "js ''m1''"]
  from t ok have "\<not> (\<exists>e. ?out = Inl e)" by blast
  then have r: "?out = Inr (projr ?out)" by (cases ?out) simp_all
  have v: "visited (visitedPrompts ?c) 3 (js ''q'')"
    by (simp add: visited_def findVisited_def)
  from t r v have v': "visited (updVisitedPrompts (updateData (projr ?out))) 3 (js ''q'')"
    by blast
  have h: "updVisitedPrompts (updateData (projr ?out)) =
         [\<lparr>promptNumber = 3, letters = [js ''q'', js ''b'', js ''c'']\<rparr>]"
    by (simp add: postPromptHistory_def resolveNumber_def resolveLetter_def advance_def
        nextPosition_def sameDice_def letterAfter_def trackVisit_def recordResponse_def
        activeMemoriesCount_def memoryUpdated_def js_def Let_def)
  from r v v' h show ?thesis unfolding Let_def by simp
qed

text \<open>
  C10. When the pool is at capacity (no open memory, 5 memories not struck out, or more),
  the roll is still processed: the answer is not an error, the memories are not written,
  the position and the history written to the character are those of the navigator, and
  the response is stored in the history row. The history row, the position and the
  history are the same for every other memory pool of the character, so they do not
  depend on whether the allocation succeeded.
\<close>

theorem postPromptHistory_at_capacity:
  assumes "\<forall>m\<in>set (memories c). \<not> isOpen m" and "5 \<le> activeMemoriesCount (memories c)"
    and "ps \<noteq> []"
  shows "\<exists>res. postPromptHistory True (Some c) cpd ps body now newId = Inr res \<and>
           updMemories (updateData res) = None \<and>
           ((updCurrentPrompt (updateData res), updCurrentLetter (updateData res)),
            updVisitedPrompts (updateData res)) =
             advance (resolveNumber (reqPromptNumber body) (currentPrompt c))
               (resolveLetter (reqPromptLetter body) (currentLetter c))
               (reqDiceRoll body) ps (visitedPrompts c) \<and>
           entryResponse (historyEntry res) = reqResponse body \<and>
           (\<forall>ms'. map_sum id navigationResult
                     (postPromptHistory True (Some (c\<lparr>memories := ms'\<rparr>)) cpd ps body now newId) =
                   Inr (navigationResult res))"
proof -
  from assms(1,2) have "recordResponse e i t (memories c) = (memories c, CapacityExceeded)" for e i t
    by (simp add: recordResponse_full findIndex_None)
  then show ?thesis
    unfolding postPromptHistory_processed [OF assms(3)]
    by (simp add: Let_def memoryUpdated_def navigationResult_def)
qed

theorem postPromptHistory_at_capacity_witness:
  "(let c = \<lparr>memories =
               map (\<lambda>i. \<lparr>memId = i, title = js ''T'',
                          experiences = [\<lparr>expText = js ''x'', createdAt = js ''t''\<rparr>,
                                         \<lparr>expText = js ''y'', createdAt = js ''t''\<rparr>,
                                         \<lparr>expText = js ''z'', createdAt = js ''t''\<rparr>],
                          inDiary = False, strikedOut = False\<rparr>)
                 [js ''m1'', js ''m2'', js ''m3'', js ''m4'', js ''m5''],
             currentPrompt = 1, currentLetter = js ''a'', visitedPrompts = []\<rparr>;
        row = \<lparr>rowId = 10, rowNumber = 1, rowLetter = js ''a'', rowEntry = [],
               rowContent = js ''You wake''\<rparr>;
        body = \<lparr>reqCharacterId = 7, reqPromptId = 10, reqPromptNumber = Some 1,
                reqPromptLetter = Some (js ''a''), reqDiceRoll = \<lparr>d10 = 5, d6 = 5\<rparr>,
                reqResponse = js ''I waited''\<rparr>
    in (\<forall>m\<in>set (memories c). \<not> isOpen m) \<and> 5 \<le> activeMemoriesCount (memories c) \<and>
       [row] \<noteq> [] \<and>
       (\<exists>res. postPromptHistory True (Some c) (Some row) [row] body (js ''t'') (js ''m6'') = Inr res \<and>
          updMemories (updateData res) = None \<and>
          updCurrentPrompt (updateData res) = 1 \<and>
          updCurrentLetter (updateData res) = js ''b'' \<and>
          updVisitedPrompts (updateData res) = [\<lparr>promptNumber = 1, letters = [js ''b'']\<rparr>] \<and>
          entryResponse (historyEntry res) = js ''I waited''))"
proof -
  let ?c = "\<lparr>memories =
               map (\<lambda>i. \<lparr>memId = i, title = js ''T'',
                          experiences = [\<lparr>expText = js ''x'', createdAt = js ''t''\<rparr>,
                                         \<lparr>expText = js ''y'', createdAt = js ''t''\<rparr>,
                                         \<lparr>expText = js ''z'', createdAt = js ''t''\<rparr>],
                          inDiary = False, strikedOut = False\<rparr>)
                 [js ''m1'', js ''m2'', js ''m3'', js ''m4'', js ''m5''],
             currentPrompt = 1, currentLetter = js ''a'', visitedPrompts = []\<rparr>"
  let ?row = "\<lparr>rowId = 10, rowNumber = 1, rowLetter = js ''a'', rowEntry = [],
               rowContent = js ''You wake''\<rparr>"
  let ?body = "\<lparr>reqCharacterId = 7, reqPromptId = 10, reqPromptNumber = Some 1,
                reqPromptLetter = Some (js ''a''), reqDiceRoll = \<lparr>d10 = 5, d6 = 5\<rparr>,
                reqResponse = js ''I waited''\<rparr>"
  have h1: "\<forall>m\<in>set (memories ?c). \<not> isOpen m" by (simp add: isOpen_def)
  have h2: "5 \<le> activeMemoriesCount (memories ?c)" by (simp add: activeMemoriesCount_def)
  have h3: "[?row] \<noteq> []" by simp
  have n: "resolveNumber (reqPromptNumber ?body) (currentPrompt ?c) = 1"
    by (simp add: resolveNumber_def)
  have l: "resolveLetter (reqPromptLetter ?body) (currentLetter ?c) = js ''a''"
    by (simp add: resolveLetter_def js_abc)
  have adv: "advance 1 (js ''a'') (reqDiceRoll ?body) [?row] (visitedPrompts ?c) =
      ((1, js ''b''), [\<lparr>promptNumber = 1, letters = [js ''b'']\<rparr>])"
    by (simp add: advance_def nextPosition_def sameDice_def letterAfter_def trackVisit_def js_abc)
  from postPromptHistory_at_capacity [OF h1 h2 h3, of "Some ?row" ?body "js ''t''" "js ''m6''"]
  obtain res
    where res: "postPromptHistory True (Some ?c) (Some ?row) [?row] ?body (js ''t'') (js ''m6'') = Inr res"
    "updMemories (updateData res) = None"
    "((updCurrentPrompt (updateData res), updCurrentLetter (updateData res)),
            updVisitedPrompts (updateData res)) =
       advance (resolveNumber (reqPromptNumber ?body) (currentPrompt ?c))
               (resolveLetter (reqPromptLetter ?body) (currentLetter ?c))
               (reqDiceRoll ?body) [?row] (visitedPrompts ?c)"
    "entryResponse (historyEntry res) = reqResponse ?body"
    by blast
  from res(3) have "updCurrentPrompt (updateData res) = 1"
    "updCurrentLetter (updateData res) = js ''b''"
    "updVisitedPrompts (updateData res) = [\<lparr>promptNumber = 1, letters = [js ''b'']\<rparr>]"
    unfolding n l adv by simp_all
  with res(1,2,4) h1 h2 h3 show ?thesis unfolding Let_def by simp
qed

section \<open>The allocation inside the handler\<close>

text \<open>
  C8, as stated, fails on the identity: the id of a created memory is the value of
  \<open>Math.random().toString(36).substring(2, 15)\<close> (line 664) and is never compared with
  the ids in the pool, so the created memory can carry the id of a memory that is there
  already.
\<close>

theorem postPromptHistory_duplicate_identity:
  "postPromptHistory True
     (Some \<lparr>memories =
              [\<lparr>memId = js ''k3f9x2a7q1'', title = js ''Old'',
                experiences = [\<lparr>expText = js ''x'', createdAt = js ''t0''\<rparr>,
                               \<lparr>expText = js ''y'', createdAt = js ''t0''\<rparr>,
                               \<lparr>expText = js ''z'', createdAt = js ''t0''\<rparr>],
                inDiary = False, strikedOut = False\<rparr>],
            currentPrompt = 1, currentLetter = js ''a'', visitedPrompts = []\<rparr>)
     (Some \<lparr>rowId = 10, rowNumber = 1, rowLetter = js ''a'', rowEntry = [],
            rowContent = js ''You wake''\<rparr>)
     [\<lparr>rowId = 10, rowNumber = 1, rowLetter = js ''a'', rowEntry = [],
       rowContent = js ''You wake''\<rparr>]
     \<lparr>reqCharacterId = 7, reqPromptId = 10, reqPromptNumber = Some 1,
      reqPromptLetter = Some (js ''a''), reqDiceRoll = \<lparr>d10 = 3, d6 = 2\<rparr>,
      reqResponse = js ''I hid''\<rparr>
     (js ''t1'') (js ''k3f9x2a7q1'') =
   Inr \<lparr>historyEntry =
          \<lparr>entryCharacterId = 7, entryPromptId = 10, entryPromptNumber = 1,
           entryPromptLetter = js ''a'', entryDiceRoll = \<lparr>d10 = 3, d6 = 2\<rparr>,
           entryResponse = js ''I hid''\<rparr>,
        updateData =
          \<lparr>updCurrentPrompt = 2, updCurrentLetter = js ''a'',
           updVisitedPrompts = [\<lparr>promptNumber = 2, letters = [js ''a'']\<rparr>],
           updMemories =
             Some [\<lparr>memId = js ''k3f9x2a7q1'', title = js ''Old'',
                     experiences = [\<lparr>expText = js ''x'', createdAt = js ''t0''\<rparr>,
                                    \<lparr>expText = js ''y'', createdAt = js ''t0''\<rparr>,
                                    \<lparr>expText = js ''z'', createdAt = js ''t0''\<rparr>],
                     inDiary = False, strikedOut = False\<rparr>,
                   \<lparr>memId = js ''k3f9x2a7q1'', title = js ''Prompt 1a: You wake...'',
                     experiences = [\<lparr>expText = js ''I hid'', createdAt = js ''t1''\<rparr>],
                     inDiary = False, strikedOut = False\<rparr>]\<rparr>,
        previousPrompt = 1, previousLetter = js ''a'', movement = 1,
        updatedMemories =
          Some [\<lparr>memId = js ''k3f9x2a7q1'', title = js ''Old'',
                  experiences = [\<lparr>expText = js ''x'', createdAt = js ''t0''\<rparr>,
                                 \<lparr>expText = js ''y'', createdAt = js ''t0''\<rparr>,
                                 \<lparr>expText = js ''z'', createdAt = js ''t0''\<rparr>],
                  inDiary = False, strikedOut = False\<rparr>,
                \<lparr>memId = js ''k3f9x2a7q1'', title = js ''Prompt 1a: You wake...'',
                  experiences = [\<lparr>expText = js ''I hid'', createdAt = js ''t1''\<rparr>],
                  inDiary = False, strikedOut = False\<rparr>]\<rparr>"
  by (simp add: postPromptHistory_def resolveNumber_def resolveLetter_def advance_def
        nextPosition_def movedLetter_def findVisited_def trackVisit_def recordResponse_def
        isOpen_def activeMemoriesCount_def memoryUpdated_def promptTitle_def showNumber_def
        js_def Let_def)

text \<open>
  C8, amended. The handler follows the allocation order. If some memory of the pool is
  open (not in the diary, not struck out, fewer than 3 experiences), the experience (the
  response with the time stamp) is appended to the first open memory in pool order, the
  outcome is \<open>Appended\<close> with that memory's id, and the pool so changed is written to
  the character and answered. Otherwise, when fewer than 5 memories are not struck out, a
  memory is appended at the end of the pool with the generated id, whatever the ids in
  the pool, with the title derived from the current position and prompt (\<open>Prompt\<close>,
  number, letter, a colon, the first 30 code units of the prompt's content and three
  dots; \<open>Response to Prompt\<close>, number, letter when the prompt was not found), with
  exactly the one experience, neither in the diary nor struck out; the outcome is
  \<open>Created\<close>, and the pool so changed is written to the character and answered.
\<close>

theorem postPromptHistory_allocation_order:
  assumes "ps \<noteq> []"
    and "n = resolveNumber (reqPromptNumber body) (currentPrompt c)"
    and "l = resolveLetter (reqPromptLetter body) (currentLetter c)"
    and "e = \<lparr>expText = reqResponse body, createdAt = now\<rparr>"
    and "t = (case cpd of
                Some p \<Rightarrow> js ''Prompt '' @ showNumber n @ l @ js '': '' @
                          take 30 (rowContent p) @ js ''...''
              | None \<Rightarrow> js ''Response to Prompt '' @ showNumber n @ l)"
    and "ms = memories c"
  shows "(\<forall>i. i < length ms \<and> isOpen (ms ! i) \<and> (\<forall>j<i. \<not> isOpen (ms ! j)) \<longrightarrow>
            recordResponse e newId t ms =
              (ms[i := (ms ! i)\<lparr>experiences := experiences (ms ! i) @ [e]\<rparr>],
               Appended (memId (ms ! i))) \<and>
            (\<exists>res. postPromptHistory True (Some c) cpd ps body now newId = Inr res \<and>
               updMemories (updateData res) =
                 Some (ms[i := (ms ! i)\<lparr>experiences := experiences (ms ! i) @ [e]\<rparr>]) \<and>
               updatedMemories res = updMemories (updateData res))) \<and>
         ((\<forall>m\<in>set ms. \<not> isOpen m) \<and> activeMemoriesCount ms < 5 \<longrightarrow>
            recordResponse e newId t ms =
              (ms @ [\<lparr>memId = newId, title = t, experiences = [e], inDiary = False,
                      strikedOut = False\<rparr>],
               Created newId) \<and>
            (\<exists>res. postPromptHistory True (Some c) cpd ps body now newId = Inr res \<and>
               updMemories (updateData res) =
                 Some (ms @ [\<lparr>memId = newId, title = t, experiences = [e], inDiary = False,
                              strikedOut = False\<rparr>]) \<and>
               updatedMemories res = updMemories (updateData res)))"
proof -
  have t: "promptTitle cpd n l = t"
    unfolding assms(5) by (simp add: promptTitle_def)
  have app: "recordResponse e newId t ms =
              (ms[i := (ms ! i)\<lparr>experiences := experiences (ms ! i) @ [e]\<rparr>],
               Appended (memId (ms ! i)))"
    if "i < length ms" "isOpen (ms ! i)" "\<forall>j<i. \<not> isOpen (ms ! j)" for i
    using that by (simp add: recordResponse_append findIndex_first)
  have cre: "recordResponse e newId t ms =
              (ms @ [\<lparr>memId = newId, title = t, experiences = [e], inDiary = False,
                      strikedOut = False\<rparr>],
               Created newId)"
    if "\<forall>m\<in>set ms. \<not> isOpen m" "activeMemoriesCount ms < 5"
    using that by (simp add: recordResponse_create findIndex_None)
  have h: "\<exists>res. postPromptHistory True (Some c) cpd ps body now newId = Inr res \<and>
               updMemories (updateData res) = Some ms' \<and>
               updatedMemories res = updMemories (updateData res)"
    if "recordResponse e newId t ms = (ms', out)" "out \<noteq> CapacityExceeded" for ms' out
    using that assms(2,3,4,6) t
    unfolding postPromptHistory_processed [OF assms(1)]
    by (simp add: Let_def memoryUpdated_def)
  show ?thesis
  proof (intro conjI allI impI)
    fix i assume a: "i < length ms \<and> isOpen (ms ! i) \<and> (\<forall>j<i. \<not> isOpen (ms ! j))"
    then show r: "recordResponse e newId t ms =
              (ms[i := (ms ! i)\<lparr>experiences := experiences (ms ! i) @ [e]\<rparr>],
               Appended (memId (ms ! i)))"
      using app by blast
    show "\<exists>res. postPromptHistory True (Some c) cpd ps body now newId = Inr res \<and>
               updMemories (updateData res) =
                 Some (ms[i := (ms ! i)\<lparr>experiences := experiences (ms ! i) @ [e]\<rparr>]) \<and>
               updatedMemories res = updMemories (updateData res)"
      by (rule h [OF r]) simp
  next
    assume a: "(\<forall>m\<in>set ms. \<not> isOpen m) \<and> activeMemoriesCount ms < 5"
    then show r: "recordResponse e newId t ms =
              (ms @ [\<lparr>memId = newId, title = t, experiences = [e], inDiary = False,
                      strikedOut = False\<rparr>],
               Created newId)"
      using cre by blast
    show "\<exists>res. postPromptHistory True (Some c) cpd ps body now newId = Inr res \<and>
               updMemories (updateData res) =
                 Some (ms @ [\<lparr>memId = newId, title = t, experiences = [e], inDiary = False,
                              strikedOut = False\<rparr>]) \<and>
               updatedMemories res = updMemories (updateData res)"
      by (rule h [OF r]) simp
  qed
qed

theorem postPromptHistory_allocation_order_witness:
  "(let full = \<lparr>memId = js ''m1'', title = js ''Old'',
                experiences = [\<lparr>expText = js ''x'', createdAt = js ''t0''\<rparr>,
                               \<lparr>expText = js ''y'', createdAt = js ''t0''\<rparr>,
                               \<lparr>expText = js ''z'', createdAt = js ''t0''\<rparr>],
                inDiary = False, strikedOut = False\<rparr>;
        opened = \<lparr>memId = js ''m2'', title = js ''New'',
                  experiences = [\<lparr>expText = js ''w'', createdAt = js ''t1''\<rparr>],
                  inDiary = False, strikedOut = False\<rparr>;
        row = \<lparr>rowId = 10, rowNumber = 12, rowLetter = js ''b'', rowEntry = [],
               rowContent = js ''You wake beneath the earth, hungry and alone''\<rparr>;
        body = \<lparr>reqCharacterId = 7, reqPromptId = 10, reqPromptNumber = Some 12,
                reqPromptLetter = Some (js ''b''), reqDiceRoll = \<lparr>d10 = 5, d6 = 2\<rparr>,
                reqResponse = js ''I fed on a traveler''\<rparr>;
        e = \<lparr>expText = js ''I fed on a traveler'', createdAt = js ''t2''\<rparr>
    in [row] \<noteq> [] \<and>
       (\<forall>m\<in>set [full]. \<not> isOpen m) \<and> activeMemoriesCount [full] < 5 \<and>
       (\<exists>res. postPromptHistory True
                 (Some \<lparr>memories = [full], currentPrompt = 12, currentLetter = js ''b'',
                        visitedPrompts = []\<rparr>)
                 (Some row) [row] body (js ''t2'') (js ''k3f9x2a7q1'') = Inr res \<and>
              updMemories (updateData res) =
                Some [full,
                      \<lparr>memId = js ''k3f9x2a7q1'',
                       title = js ''Prompt 12b: You wake beneath the earth, hu...'',
                       experiences = [e], inDiary = False, strikedOut = False\<rparr>]) \<and>
       1 < length [full, opened] \<and> isOpen ([full, opened] ! 1) \<and>
       (\<forall>j<1. \<not> isOpen ([full, opened] ! j)) \<and>
       (\<exists>res. postPromptHistory True
                 (Some \<lparr>memories = [full, opened], currentPrompt = 12, currentLetter = js ''b'',
                        visitedPrompts = []\<rparr>)
                 (Some row) [row] body (js ''t2'') (js ''k3f9x2a7q1'') = Inr res \<and>
              updMemories (updateData res) =
                Some [full, opened\<lparr>experiences := experiences opened @ [e]\<rparr>]))"
proof -
  let ?full = "\<lparr>memId = js ''m1'', title = js ''Old'',
                experiences = [\<lparr>expText = js ''x'', createdAt = js ''t0''\<rparr>,
                               \<lparr>expText = js ''y'', createdAt = js ''t0''\<rparr>,
                               \<lparr>expText = js ''z'', createdAt = js ''t0''\<rparr>],
                inDiary = False, strikedOut = False\<rparr>"
  let ?opened = "\<lparr>memId = js ''m2'', title = js ''New'',
                  experiences = [\<lparr>expText = js ''w'', createdAt = js ''t1''\<rparr>],
                  inDiary = False, strikedOut = False\<rparr>"
  let ?row = "\<lparr>rowId = 10, rowNumber = 12, rowLetter = js ''b'', rowEntry = [],
               rowContent = js ''You wake beneath the earth, hungry and alone''\<rparr>"
  let ?body = "\<lparr>reqCharacterId = 7, reqPromptId = 10, reqPromptNumber = Some 12,
                reqPromptLetter = Some (js ''b''), reqDiceRoll = \<lparr>d10 = 5, d6 = 2\<rparr>,
                reqResponse = js ''I fed on a traveler''\<rparr>"
  let ?e = "\<lparr>expText = js ''I fed on a traveler'', createdAt = js ''t2''\<rparr>"
  let ?c1 = "\<lparr>memories = [?full], currentPrompt = 12, currentLetter = js ''b'',
              visitedPrompts = []\<rparr>"
  let ?c2 = "\<lparr>memories = [?full, ?opened], currentPrompt = 12, currentLetter = js ''b'',
              visitedPrompts = []\<rparr>"
  let ?t = "js ''Prompt 12b: You wake beneath the earth, hu...''"
  have p: "[?row] \<noteq> []" by simp
  have n: "(12::int) = resolveNumber (reqPromptNumber ?body) (currentPrompt c)" for c
    by (simp add: resolveNumber_def)
  have l: "js ''b'' = resolveLetter (reqPromptLetter ?body) (currentLetter c)" for c
    by (simp add: resolveLetter_def js_def)
  have e: "?e = \<lparr>expText = reqResponse ?body, createdAt = js ''t2''\<rparr>" by simp
  have t: "?t = (case Some ?row of
                Some p \<Rightarrow> js ''Prompt '' @ showNumber 12 @ js ''b'' @ js '': '' @
                          take 30 (rowContent p) @ js ''...''
              | None \<Rightarrow> js ''Response to Prompt '' @ showNumber 12 @ js ''b'')"
    by (simp add: showNumber_def js_def)
  have h1: "(\<forall>m\<in>set [?full]. \<not> isOpen m) \<and> activeMemoriesCount [?full] < 5"
    by (simp add: isOpen_def activeMemoriesCount_def)
  have h2: "1 < length [?full, ?opened] \<and> isOpen ([?full, ?opened] ! 1) \<and>
       (\<forall>j<1. \<not> isOpen ([?full, ?opened] ! j))"
    by (simp add: isOpen_def)
  have m1: "[?full] = memories ?c1" by simp
  have m2: "[?full, ?opened] = memories ?c2" by simp
  from postPromptHistory_allocation_order [OF p n l e t m1, of "js ''k3f9x2a7q1''"] h1
  have a: "\<exists>res. postPromptHistory True (Some ?c1) (Some ?row) [?row] ?body (js ''t2'')
                   (js ''k3f9x2a7q1'') = Inr res \<and>
              updMemories (updateData res) =
                Some ([?full] @ [\<lparr>memId = js ''k3f9x2a7q1'', title = ?t, experiences = [?e],
                                 inDiary = False, strikedOut = False\<rparr>])"
    by blast
  from postPromptHistory_allocation_order [OF p n l e t m2, of "js ''k3f9x2a7q1''"] h2
  have b: "\<exists>res. postPromptHistory True (Some ?c2) (Some ?row) [?row] ?body (js ''t2'')
                   (js ''k3f9x2a7q1'') = Inr res \<and>
              updMemories (updateData res) =
                Some ([?full, ?opened]
                       [1 := ([?full, ?opened] ! 1)
                          \<lparr>experiences := experiences ([?full, ?opened] ! 1) @ [?e]\<rparr>])"
    by blast
  from a b h1 h2 show ?thesis unfolding Let_def by simp
qed

end
